theory Spec2Isabelle
  imports Complex_Main "HOL-Library.Word"
begin

section \<open>Canonical model (gedcom-types)\<close>

text \<open>
  The shapes every component exchanges, with the fields the parser fills and the
  traversal reads.  Optional TypeScript fields are \<open>option\<close> values; a JavaScript
  string is a \<open>string\<close>.  The field \<open>id\<close> of persons and families is written \<open>p_id\<close>
  and \<open>f_id\<close>, the count \<open>meta.families\<close> is \<open>m_families\<close>.
\<close>

record ParsedPerson =
  p_id :: string
  name :: string
  firstName :: "string option"
  lastName :: "string option"
  birthDate :: string
  deathDate :: string
  famc :: "string list"
  fams :: "string list"

record ParsedFamily =
  f_id :: string
  husband :: "string option"
  wife :: "string option"
  children :: "string list"

record ParseMeta =
  individuals :: nat
  m_families :: nat
  encodingTag :: string

record ParseResult =
  meta :: ParseMeta
  persons :: "ParsedPerson list"
  families :: "ParsedFamily list"

datatype relation = father | mother

record edge =
  parent :: string
  child :: string
  relation :: relation

record AncestryResult =
  root :: string
  generations :: "string list list"
  nodes :: "ParsedPerson list"
  edges :: "edge list"

text \<open>Every failure of the core is a \<open>NodeOperationError\<close> carrying its message.\<close>

datatype error = NodeOperationError string

section \<open>Identifier canonicalization\<close>

definition startsWith :: "string \<Rightarrow> string \<Rightarrow> bool" where
  "startsWith s p = (take (length p) s = p)"

definition endsWith :: "string \<Rightarrow> string \<Rightarrow> bool" where
  "endsWith s p = (length p \<le> length s \<and> drop (length s - length p) s = p)"

text \<open>\<open>GedcomAncestry.canonicalizeId\<close>; \<open>!id\<close> on a string is emptiness.\<close>

definition canonicalizeId :: "string \<Rightarrow> string" where
  "canonicalizeId i =
     (if i = [] then []
      else if startsWith i ''@'' \<and> endsWith i ''@'' then i
      else ''@'' @ i @ ''@'')"

text \<open>\<open>GedcomParser.canonicalizeId\<close>, the parser's own copy of the same function.\<close>

definition parser_canonicalizeId :: "string \<Rightarrow> string" where
  "parser_canonicalizeId i =
     (if i = [] then []
      else if startsWith i ''@'' \<and> endsWith i ''@'' then i
      else ''@'' @ i @ ''@'')"

section \<open>Ancestry and descendant traversal (gedcom-ancestry)\<close>

text \<open>
  The two \<open>Map\<close>s are filled by \<open>set\<close> in list order, so a later record with the same
  id replaces an earlier one.
\<close>

definition buildPersonMap :: "ParsedPerson list \<Rightarrow> (string \<rightharpoonup> ParsedPerson)" where
  "buildPersonMap ps = foldl (\<lambda>m p. m(p_id p \<mapsto> p)) Map.empty ps"

definition buildFamilyMap :: "ParsedFamily list \<Rightarrow> (string \<rightharpoonup> ParsedFamily)" where
  "buildFamilyMap fs = foldl (\<lambda>m f. m(f_id f \<mapsto> f)) Map.empty fs"

text \<open>
  The mutable locals of a traversal.  \<open>visitedPersons\<close> is a JavaScript \<open>Set\<close>: a
  list without repetition in insertion order, \<open>has\<close> is membership and \<open>add\<close>
  appends an absent element only.
\<close>

record walk =
  generations_acc :: "string list list"
  visitedPersons :: "string list"
  edges_acc :: "edge list"
  currentGeneration :: "string list"
  nextGeneration :: "string list"

definition set_add :: "string \<Rightarrow> string list \<Rightarrow> string list" where
  "set_add x xs = (if x \<in> set xs then xs else xs @ [x])"

text \<open>A string option is truthy when it is present and not empty.\<close>

definition truthy :: "string option \<Rightarrow> bool" where
  "truthy v = (case v of None \<Rightarrow> False | Some s \<Rightarrow> s \<noteq> [])"

definition visitHusband :: "ParsedFamily \<Rightarrow> string \<Rightarrow> walk \<Rightarrow> walk" where
  "visitHusband family personId w =
     (case husband family of
        None \<Rightarrow> w
      | Some h \<Rightarrow>
          if h \<noteq> [] \<and> h \<notin> set (visitedPersons w) then
            w\<lparr>nextGeneration := nextGeneration w @ [h],
              visitedPersons := set_add h (visitedPersons w),
              edges_acc := edges_acc w @ [\<lparr>parent = h, child = personId, relation = father\<rparr>]\<rparr>
          else w)"

definition visitWife :: "ParsedFamily \<Rightarrow> string \<Rightarrow> walk \<Rightarrow> walk" where
  "visitWife family personId w =
     (case wife family of
        None \<Rightarrow> w
      | Some h \<Rightarrow>
          if h \<noteq> [] \<and> h \<notin> set (visitedPersons w) then
            w\<lparr>nextGeneration := nextGeneration w @ [h],
              visitedPersons := set_add h (visitedPersons w),
              edges_acc := edges_acc w @ [\<lparr>parent = h, child = personId, relation = mother\<rparr>]\<rparr>
          else w)"

definition ancestors_family ::
  "(string \<rightharpoonup> ParsedFamily) \<Rightarrow> string \<Rightarrow> walk \<Rightarrow> string \<Rightarrow> walk" where
  "ancestors_family familyMap personId w familyId =
     (case familyMap familyId of
        None \<Rightarrow> w
      | Some family \<Rightarrow> visitWife family personId (visitHusband family personId w))"

definition ancestors_person ::
  "(string \<rightharpoonup> ParsedPerson) \<Rightarrow> (string \<rightharpoonup> ParsedFamily) \<Rightarrow> walk \<Rightarrow> string \<Rightarrow> walk" where
  "ancestors_person personMap familyMap w personId =
     (case personMap personId of
        None \<Rightarrow> w
      | Some person \<Rightarrow> foldl (ancestors_family familyMap personId) w (famc person))"

text \<open>
  One turn of the generation loop: record the current generation, walk it, move on.
  \<open>maxGenerations\<close> is a JavaScript number, which the caller passes as it read it
  and nothing rounds: a rational here, as every finite number is, compared with the
  integer counter \<open>gen\<close>.
\<close>

definition ancestors_generation ::
  "(string \<rightharpoonup> ParsedPerson) \<Rightarrow> (string \<rightharpoonup> ParsedFamily) \<Rightarrow> walk \<Rightarrow> walk" where
  "ancestors_generation personMap familyMap w =
     (let w1 = w\<lparr>generations_acc := generations_acc w @ [currentGeneration w],
                 nextGeneration := []\<rparr>;
          w2 = foldl (ancestors_person personMap familyMap) w1 (currentGeneration w)
      in w2\<lparr>currentGeneration := nextGeneration w2\<rparr>)"

function ancestors_loop ::
  "(string \<rightharpoonup> ParsedPerson) \<Rightarrow> (string \<rightharpoonup> ParsedFamily) \<Rightarrow> rat \<Rightarrow> int \<Rightarrow> walk \<Rightarrow> walk" where
  "ancestors_loop personMap familyMap maxGenerations gen w =
     (if of_int gen < maxGenerations \<and> currentGeneration w \<noteq> [] then
        ancestors_loop personMap familyMap maxGenerations (gen + 1)
          (ancestors_generation personMap familyMap w)
      else w)"
  by pat_completeness auto
termination
  by (relation "measure (\<lambda>(pm, fm, maxG, gen, w). nat (\<lceil>maxG\<rceil> - gen))")
     (auto simp: less_ceiling_iff [symmetric])

declare ancestors_loop.simps [simp del]

definition visitChild :: "ParsedPerson \<Rightarrow> ParsedFamily \<Rightarrow> string \<Rightarrow> walk \<Rightarrow> string \<Rightarrow> walk" where
  "visitChild person family personId w childId =
     (if childId \<notin> set (visitedPersons w) then
        w\<lparr>nextGeneration := nextGeneration w @ [childId],
          visitedPersons := set_add childId (visitedPersons w),
          edges_acc := edges_acc w @
            [\<lparr>parent = personId, child = childId,
              relation = (if Some (p_id person) = husband family then father else mother)\<rparr>]\<rparr>
      else w)"

definition descendants_family ::
  "(string \<rightharpoonup> ParsedFamily) \<Rightarrow> ParsedPerson \<Rightarrow> string \<Rightarrow> walk \<Rightarrow> string \<Rightarrow> walk" where
  "descendants_family familyMap person personId w familyId =
     (case familyMap familyId of
        None \<Rightarrow> w
      | Some family \<Rightarrow> foldl (visitChild person family personId) w (children family))"

definition descendants_person ::
  "(string \<rightharpoonup> ParsedPerson) \<Rightarrow> (string \<rightharpoonup> ParsedFamily) \<Rightarrow> walk \<Rightarrow> string \<Rightarrow> walk" where
  "descendants_person personMap familyMap w personId =
     (case personMap personId of
        None \<Rightarrow> w
      | Some person \<Rightarrow> foldl (descendants_family familyMap person personId) w (fams person))"

definition descendants_generation ::
  "(string \<rightharpoonup> ParsedPerson) \<Rightarrow> (string \<rightharpoonup> ParsedFamily) \<Rightarrow> walk \<Rightarrow> walk" where
  "descendants_generation personMap familyMap w =
     (let w1 = w\<lparr>generations_acc := generations_acc w @ [currentGeneration w],
                 nextGeneration := []\<rparr>;
          w2 = foldl (descendants_person personMap familyMap) w1 (currentGeneration w)
      in w2\<lparr>currentGeneration := nextGeneration w2\<rparr>)"

function descendants_loop ::
  "(string \<rightharpoonup> ParsedPerson) \<Rightarrow> (string \<rightharpoonup> ParsedFamily) \<Rightarrow> rat \<Rightarrow> int \<Rightarrow> walk \<Rightarrow> walk" where
  "descendants_loop personMap familyMap maxGenerations gen w =
     (if of_int gen < maxGenerations \<and> currentGeneration w \<noteq> [] then
        descendants_loop personMap familyMap maxGenerations (gen + 1)
          (descendants_generation personMap familyMap w)
      else w)"
  by pat_completeness auto
termination
  by (relation "measure (\<lambda>(pm, fm, maxG, gen, w). nat (\<lceil>maxG\<rceil> - gen))")
     (auto simp: less_ceiling_iff [symmetric])

declare descendants_loop.simps [simp del]

text \<open>The locals before the loop: the root is the current generation and is visited.\<close>

definition start_walk :: "string \<Rightarrow> walk" where
  "start_walk canonicalRootId =
     \<lparr>generations_acc = [], visitedPersons = set_add canonicalRootId [],
      edges_acc = [], currentGeneration = [canonicalRootId], nextGeneration = []\<rparr>"

text \<open>The locals after the loop of \<open>computeAncestors\<close> and of \<open>computeDescendants\<close>.\<close>

definition ancestors_walk :: "ParseResult \<Rightarrow> string \<Rightarrow> rat \<Rightarrow> walk" where
  "ancestors_walk parseResult rootId maxGenerations =
     ancestors_loop (buildPersonMap (persons parseResult)) (buildFamilyMap (families parseResult))
       maxGenerations 0 (start_walk (canonicalizeId rootId))"

definition descendants_walk :: "ParseResult \<Rightarrow> string \<Rightarrow> rat \<Rightarrow> walk" where
  "descendants_walk parseResult rootId maxGenerations =
     descendants_loop (buildPersonMap (persons parseResult)) (buildFamilyMap (families parseResult))
       maxGenerations 0 (start_walk (canonicalizeId rootId))"

definition root_not_found :: "string \<Rightarrow> error" where
  "root_not_found rootId =
     NodeOperationError (''Root person with ID '' @ [CHR 0x27] @ rootId @ [CHR 0x27]
       @ '' not found in GEDCOM data'')"

text \<open>
  \<open>nodes\<close>: the visited identifiers in insertion order, each looked up in the person
  map, the lookups that found nothing filtered out.
\<close>

definition materialize :: "(string \<rightharpoonup> ParsedPerson) \<Rightarrow> string list \<Rightarrow> ParsedPerson list" where
  "materialize personMap visited = List.map_filter personMap visited"

definition computeAncestors :: "ParseResult \<Rightarrow> string \<Rightarrow> rat \<Rightarrow> error + AncestryResult" where
  "computeAncestors parseResult rootId maxGenerations =
     (let canonicalRootId = canonicalizeId rootId;
          personMap = buildPersonMap (persons parseResult)
      in if personMap canonicalRootId = None then Inl (root_not_found rootId)
         else
           let w = ancestors_walk parseResult rootId maxGenerations
           in Inr \<lparr>root = canonicalRootId, generations = generations_acc w,
                   nodes = materialize personMap (visitedPersons w), edges = edges_acc w\<rparr>)"

definition computeDescendants :: "ParseResult \<Rightarrow> string \<Rightarrow> rat \<Rightarrow> error + AncestryResult" where
  "computeDescendants parseResult rootId maxGenerations =
     (let canonicalRootId = canonicalizeId rootId;
          personMap = buildPersonMap (persons parseResult)
      in if personMap canonicalRootId = None then Inl (root_not_found rootId)
         else
           let w = descendants_walk parseResult rootId maxGenerations
           in Inr \<lparr>root = canonicalRootId, generations = generations_acc w,
                   nodes = materialize personMap (visitedPersons w), edges = edges_acc w\<rparr>)"

section \<open>Name splitting (gedcom-name-parser)\<close>

text \<open>
  \<open>String.prototype.trim\<close> belongs to the runtime and is a parameter \<open>trim\<close> of the
  functions that call it.  \<open>lastNameMatch\<close> is the first match of the pattern
  \<open>/([^/]+)/\<close>: its index and its captured group; the whole match is the group and
  the two slashes.
\<close>

record ParsedName =
  fullName :: string
  pn_firstName :: "string option"
  pn_lastName :: "string option"

fun lastNameMatch :: "string \<Rightarrow> nat \<Rightarrow> (nat \<times> string) option" where
  "lastNameMatch [] i = None"
| "lastNameMatch (c # cs) i =
     (if c = CHR ''/''
         \<and> takeWhile (\<lambda>x. x \<noteq> CHR ''/'') cs \<noteq> []
         \<and> dropWhile (\<lambda>x. x \<noteq> CHR ''/'') cs \<noteq> []
      then Some (i, takeWhile (\<lambda>x. x \<noteq> CHR ''/'') cs)
      else lastNameMatch cs (i + 1))"

definition join_space :: "string list \<Rightarrow> string" where
  "join_space parts = (case parts of [] \<Rightarrow> [] | p # ps \<Rightarrow> foldl (\<lambda>acc q. acc @ '' '' @ q) p ps)"

definition non_empty :: "string \<Rightarrow> string option" where
  "non_empty s = (if s = [] then None else Some s)"

definition parseName :: "(string \<Rightarrow> string) \<Rightarrow> string \<Rightarrow> ParsedName" where
  "parseName trim nameValue =
     (if nameValue = [] then \<lparr>fullName = [], pn_firstName = None, pn_lastName = None\<rparr>
      else
        let (firstName, lastName) =
              (case lastNameMatch nameValue 0 of
                 Some (index, grp) \<Rightarrow>
                   let beforeLastName = trim (take index nameValue);
                       afterLastName = trim (drop (index + (length grp + 2)) nameValue)
                   in (join_space (filter (\<lambda>part. part \<noteq> []) [beforeLastName, afterLastName]),
                       trim grp)
               | None \<Rightarrow> (trim nameValue, []));
            full =
              (if firstName \<noteq> [] \<and> lastName \<noteq> [] then firstName @ '' '' @ lastName
               else if firstName \<noteq> [] then firstName
               else if lastName \<noteq> [] then lastName
               else [])
        in \<lparr>fullName = (if full \<noteq> [] then full else nameValue),
            pn_firstName = non_empty firstName, pn_lastName = non_empty lastName\<rparr>)"

section \<open>Parser (gedcom-parser)\<close>

subsection \<open>Encoding detection\<close>

text \<open>
  \<open>Buffer.toString\<close> belongs to the runtime: the two decodings are parameters, each
  either the decoded text or the message of the error it throws.  The detector never
  looks into the text, whose type is left open.
\<close>

type_synonym byte = "8 word"

record 'txt decoders =
  toString_utf8 :: "byte list \<Rightarrow> string + 'txt"
  toString_utf16le :: "byte list \<Rightarrow> string + 'txt"

definition detectAndDecodeGedcom :: "'txt decoders \<Rightarrow> byte list \<Rightarrow> string + 'txt" where
  "detectAndDecodeGedcom dec buffer =
     (if length buffer \<ge> 3 \<and> buffer ! 0 = 0xEF \<and> buffer ! 1 = 0xBB \<and> buffer ! 2 = 0xBF then
        toString_utf8 dec (drop 3 buffer)
      else if length buffer \<ge> 2 then
        (if buffer ! 0 = 0xFF \<and> buffer ! 1 = 0xFE then toString_utf16le dec (drop 2 buffer)
         else if buffer ! 0 = 0xFE \<and> buffer ! 1 = 0xFF then toString_utf16le dec (drop 2 buffer)
         else toString_utf8 dec buffer)
      else toString_utf8 dec buffer)"

subsection \<open>The record tree of the primary parser\<close>

text \<open>
  A node of the tree that \<open>parse-gedcom\<close> returns: \<open>type\<close>, \<open>data\<close> (with \<open>xref_id\<close> and
  \<open>pointer\<close>), \<open>value\<close> and \<open>children\<close>, each of the last three possibly absent.
\<close>

record node_data =
  xref_id :: "string option"
  pointer :: "string option"

datatype node =
  Node (ntype: string) (ndata: "node_data option") (nvalue: "string option")
       (nchildren: "node list option")

text \<open>\<open>v || ''\<close> on an optional string.\<close>

definition or_empty :: "string option \<Rightarrow> string" where
  "or_empty v = (case v of None \<Rightarrow> [] | Some s \<Rightarrow> s)"

text \<open>\<open>n.data && n.data.xref_id\<close> and \<open>n.data && n.data.pointer\<close>, when truthy.\<close>

definition node_xref :: "node \<Rightarrow> string option" where
  "node_xref n =
     (case ndata n of None \<Rightarrow> None | Some d \<Rightarrow> if truthy (xref_id d) then xref_id d else None)"

definition node_pointer :: "node \<Rightarrow> string option" where
  "node_pointer n =
     (case ndata n of None \<Rightarrow> None | Some d \<Rightarrow> if truthy (pointer d) then pointer d else None)"

text \<open>The value of the first \<open>DATE\<close> child of an event, when the event has one.\<close>

definition event_date :: "node \<Rightarrow> string option" where
  "event_date ch =
     (case nchildren ch of
        None \<Rightarrow> None
      | Some grandchildren \<Rightarrow>
          (case find (\<lambda>grandchild. ntype grandchild = ''DATE'') grandchildren of
             None \<Rightarrow> None
           | Some dateRecord \<Rightarrow> Some (or_empty (nvalue dateRecord))))"

definition individual_child :: "(string \<Rightarrow> string) \<Rightarrow> ParsedPerson \<Rightarrow> node \<Rightarrow> ParsedPerson" where
  "individual_child trim person ch =
     (if ntype ch = ''NAME'' then
        let parsedName = parseName trim (or_empty (nvalue ch))
        in person\<lparr>name := fullName parsedName, firstName := pn_firstName parsedName,
                  lastName := pn_lastName parsedName\<rparr>
      else if ntype ch = ''BIRT'' then
        (case event_date ch of None \<Rightarrow> person | Some d \<Rightarrow> person\<lparr>birthDate := d\<rparr>)
      else if ntype ch = ''DEAT'' then
        (case event_date ch of None \<Rightarrow> person | Some d \<Rightarrow> person\<lparr>deathDate := d\<rparr>)
      else if ntype ch = ''FAMC'' then
        (case node_pointer ch of None \<Rightarrow> person | Some p \<Rightarrow> person\<lparr>famc := famc person @ [p]\<rparr>)
      else if ntype ch = ''FAMS'' then
        (case node_pointer ch of None \<Rightarrow> person | Some p \<Rightarrow> person\<lparr>fams := fams person @ [p]\<rparr>)
      else person)"

text \<open>
  \<open>parseIndividual\<close> and \<open>parseFamily\<close> are called on records whose \<open>data.xref_id\<close> the
  caller has found truthy; that identifier is their argument \<open>xref\<close>.
\<close>

definition parseIndividual :: "(string \<Rightarrow> string) \<Rightarrow> string \<Rightarrow> node \<Rightarrow> ParsedPerson" where
  "parseIndividual trim xref record =
     (let person = \<lparr>p_id = xref, name = [], firstName = None, lastName = None,
                    birthDate = [], deathDate = [], famc = [], fams = []\<rparr>
      in case nchildren record of
           None \<Rightarrow> person
         | Some cs \<Rightarrow> foldl (individual_child trim) person cs)"

definition family_child :: "ParsedFamily \<Rightarrow> node \<Rightarrow> ParsedFamily" where
  "family_child family ch =
     (if ntype ch = ''HUSB'' then
        family\<lparr>husband := (case node_pointer ch of Some p \<Rightarrow> Some p | None \<Rightarrow> nvalue ch)\<rparr>
      else if ntype ch = ''WIFE'' then
        family\<lparr>wife := (case node_pointer ch of Some p \<Rightarrow> Some p | None \<Rightarrow> nvalue ch)\<rparr>
      else if ntype ch = ''CHIL'' then
        (case node_pointer ch of
           Some p \<Rightarrow> family\<lparr>children := children family @ [p]\<rparr>
         | None \<Rightarrow>
             (case nvalue ch of
                None \<Rightarrow> family
              | Some v \<Rightarrow> if v \<noteq> [] then family\<lparr>children := children family @ [v]\<rparr> else family))
      else family)"

definition parseFamily :: "string \<Rightarrow> node \<Rightarrow> ParsedFamily" where
  "parseFamily xref record =
     (let family = \<lparr>f_id = xref, husband = None, wife = None, children = []\<rparr>
      in case nchildren record of
           None \<Rightarrow> family
         | Some cs \<Rightarrow> foldl family_child family cs)"

text \<open>
  The primary normalizer.  A tree that is absent, or whose \<open>children\<close> is absent or
  not an array, is rejected; the encoding tag comes from the \<open>CHAR\<close> child of the
  first \<open>HEAD\<close> record; every other top-level record is pushed or ignored in turn.
\<close>

definition head_encoding :: "node list \<Rightarrow> string \<Rightarrow> string" where
  "head_encoding records defaultTag =
     (case find (\<lambda>r. ntype r = ''HEAD'') records of
        None \<Rightarrow> defaultTag
      | Some headRecord \<Rightarrow>
          (case nchildren headRecord of
             None \<Rightarrow> defaultTag
           | Some hs \<Rightarrow>
               (case find (\<lambda>c. ntype c = ''CHAR'') hs of
                  None \<Rightarrow> defaultTag
                | Some charRecord \<Rightarrow>
                    if truthy (nvalue charRecord) then or_empty (nvalue charRecord)
                    else defaultTag)))"

definition top_record ::
  "(string \<Rightarrow> string) \<Rightarrow> ParsedPerson list \<times> ParsedFamily list \<Rightarrow> node
     \<Rightarrow> ParsedPerson list \<times> ParsedFamily list" where
  "top_record trim acc record =
     (case node_xref record of
        None \<Rightarrow> acc
      | Some xref \<Rightarrow>
          if ntype record = ''INDI'' then (fst acc @ [parseIndividual trim xref record], snd acc)
          else if ntype record = ''FAM'' then (fst acc, snd acc @ [parseFamily xref record])
          else acc)"

definition normalizeParseGedcomResult ::
  "(string \<Rightarrow> string) \<Rightarrow> node option \<Rightarrow> string \<Rightarrow> error + ParseResult" where
  "normalizeParseGedcomResult trim tree defaultTag =
     (case tree of
        None \<Rightarrow> Inl (NodeOperationError ''Invalid GEDCOM structure'')
      | Some t \<Rightarrow>
          (case nchildren t of
             None \<Rightarrow> Inl (NodeOperationError ''Invalid GEDCOM structure'')
           | Some records \<Rightarrow>
               let acc = foldl (top_record trim) ([], []) records
               in Inr \<lparr>meta = \<lparr>individuals = length (fst acc), m_families = length (snd acc),
                                 encodingTag = head_encoding records defaultTag\<rparr>,
                       persons = fst acc, families = snd acc\<rparr>))"

subsection \<open>The object graph of the fallback parser\<close>

text \<open>
  What the fallback normalizer reads of the object that \<open>read-gedcom\<close> returns.  The
  two mappings are given as their \<open>Object.entries\<close>.
\<close>

record rg_name =
  given :: "string option"
  surname :: "string option"

record rg_date =
  date_value :: "string option"

record rg_event =
  event_date_of :: "rg_date option"

record rg_family_ref =
  ref_family :: "string option"

record rg_pointer =
  ref_pointer :: "string option"

record rg_individual =
  ind_name :: "rg_name list option"
  ind_birth :: "rg_event option"
  ind_death :: "rg_event option"
  familyAsChild :: "rg_family_ref list option"
  familyAsSpouse :: "rg_family_ref list option"

record rg_family =
  fam_husband :: "rg_pointer option"
  fam_wife :: "rg_pointer option"
  fam_children :: "rg_pointer list option"

record rg_character_set =
  cs_value :: "string option"

record rg_head =
  characterSet :: "rg_character_set option"

record rg_result =
  rg_head :: "rg_head option"
  rg_individuals :: "(string \<times> rg_individual) list option"
  rg_families :: "(string \<times> rg_family) list option"

text \<open>\<open>e && e.date\<close>, then \<open>e.date.value || ''\<close>.\<close>

definition rg_event_date :: "rg_event option \<Rightarrow> string option" where
  "rg_event_date e =
     (case e of
        None \<Rightarrow> None
      | Some ev \<Rightarrow> (case event_date_of ev of None \<Rightarrow> None | Some d \<Rightarrow> Some (or_empty (date_value d))))"

definition parseReadGedcomIndividual ::
  "(string \<Rightarrow> string) \<Rightarrow> string \<times> rg_individual \<Rightarrow> ParsedPerson" where
  "parseReadGedcomIndividual trim entry =
     (let individual = snd entry;
          person = \<lparr>p_id = parser_canonicalizeId (fst entry), name = [], firstName = None,
                    lastName = None, birthDate = [], deathDate = [], famc = [], fams = []\<rparr>;
          person1 =
            (case ind_name individual of
               Some (nameRecord # _) \<Rightarrow>
                 let rawName = trim (or_empty (given nameRecord) @ '' /''
                                      @ or_empty (surname nameRecord) @ ''/'');
                     parsedName = parseName trim rawName
                 in person\<lparr>name := fullName parsedName, firstName := pn_firstName parsedName,
                           lastName := pn_lastName parsedName\<rparr>
             | _ \<Rightarrow> person);
          person2 =
            (case rg_event_date (ind_birth individual) of
               None \<Rightarrow> person1 | Some d \<Rightarrow> person1\<lparr>birthDate := d\<rparr>);
          person3 =
            (case rg_event_date (ind_death individual) of
               None \<Rightarrow> person2 | Some d \<Rightarrow> person2\<lparr>deathDate := d\<rparr>);
          person4 =
            (case familyAsChild individual of
               None \<Rightarrow> person3
             | Some refs \<Rightarrow>
                 person3\<lparr>famc := map (\<lambda>r. parser_canonicalizeId (or_empty (ref_family r))) refs\<rparr>)
      in case familyAsSpouse individual of
           None \<Rightarrow> person4
         | Some refs \<Rightarrow>
             person4\<lparr>fams := map (\<lambda>r. parser_canonicalizeId (or_empty (ref_family r))) refs\<rparr>)"

definition parseReadGedcomFamily :: "string \<times> rg_family \<Rightarrow> ParsedFamily" where
  "parseReadGedcomFamily entry =
     (let fam = snd entry;
          parsedFamily = \<lparr>f_id = parser_canonicalizeId (fst entry), husband = None, wife = None,
                          children = []\<rparr>;
          parsedFamily1 =
            (case fam_husband fam of
               None \<Rightarrow> parsedFamily
             | Some h \<Rightarrow>
                 parsedFamily\<lparr>husband := Some (parser_canonicalizeId (or_empty (ref_pointer h)))\<rparr>);
          parsedFamily2 =
            (case fam_wife fam of
               None \<Rightarrow> parsedFamily1
             | Some h \<Rightarrow>
                 parsedFamily1\<lparr>wife := Some (parser_canonicalizeId (or_empty (ref_pointer h)))\<rparr>)
      in case fam_children fam of
           None \<Rightarrow> parsedFamily2
         | Some cs \<Rightarrow>
             parsedFamily2\<lparr>children :=
               map (\<lambda>c. parser_canonicalizeId (or_empty (ref_pointer c))) cs\<rparr>)"

definition rg_encoding :: "rg_result \<Rightarrow> string" where
  "rg_encoding result =
     (case rg_head result of
        None \<Rightarrow> ''UTF-8''
      | Some h \<Rightarrow>
          (case characterSet h of
             None \<Rightarrow> ''UTF-8''
           | Some cs \<Rightarrow> if truthy (cs_value cs) then or_empty (cs_value cs) else ''UTF-8''))"

definition normalizeReadGedcomResult :: "(string \<Rightarrow> string) \<Rightarrow> rg_result \<Rightarrow> ParseResult" where
  "normalizeReadGedcomResult trim result =
     (let ps =
            (case rg_individuals result of
               None \<Rightarrow> []
             | Some entries \<Rightarrow> foldl (\<lambda>ps e. ps @ [parseReadGedcomIndividual trim e]) [] entries);
          fs =
            (case rg_families result of
               None \<Rightarrow> []
             | Some entries \<Rightarrow> foldl (\<lambda>fs e. fs @ [parseReadGedcomFamily e]) [] entries)
      in \<lparr>meta = \<lparr>individuals = length ps, m_families = length fs,
                   encodingTag = rg_encoding result\<rparr>,
          persons = ps, families = fs\<rparr>)"

subsection \<open>Orchestration\<close>

text \<open>
  The two external parsers are parameters, each either its result or the message of
  the error it throws.  Every call to one of them is recorded with its argument, so
  that the result of \<open>parseGedcomWithFallback\<close> is the list of these calls, in order,
  and what the function returns or throws.
\<close>

record 'txt parsers =
  parseGedcom :: "'txt \<Rightarrow> string + node option"
  readGedcom :: "byte list \<Rightarrow> string + rg_result"

datatype 'txt call = ParseGedcomCall 'txt | ReadGedcomCall "byte list"

definition error_message :: "error \<Rightarrow> string" where
  "error_message e = (case e of NodeOperationError m \<Rightarrow> m)"

text \<open>The first \<open>try\<close> block: parse the text, normalize the tree.\<close>

definition primary_attempt ::
  "(string \<Rightarrow> string) \<Rightarrow> 'txt parsers \<Rightarrow> 'txt \<Rightarrow> string \<Rightarrow> string + ParseResult" where
  "primary_attempt trim libs gedcomText defaultTag =
     (case parseGedcom libs gedcomText of
        Inl msg \<Rightarrow> Inl msg
      | Inr tree \<Rightarrow>
          (case normalizeParseGedcomResult trim tree defaultTag of
             Inl e \<Rightarrow> Inl (error_message e)
           | Inr r \<Rightarrow> Inr r))"

text \<open>The inner \<open>try\<close> block: read the raw buffer, normalize the object graph.\<close>

definition fallback_attempt ::
  "(string \<Rightarrow> string) \<Rightarrow> 'txt parsers \<Rightarrow> byte list \<Rightarrow> string + ParseResult" where
  "fallback_attempt trim libs buffer =
     (case readGedcom libs buffer of
        Inl msg \<Rightarrow> Inl msg
      | Inr result \<Rightarrow> Inr (normalizeReadGedcomResult trim result))"

definition decode_failure :: "string \<Rightarrow> error" where
  "decode_failure msg = NodeOperationError (''Failed to decode GEDCOM file: '' @ msg)"

definition both_failed :: "string \<Rightarrow> string \<Rightarrow> error" where
  "both_failed primary fallback =
     NodeOperationError (''Failed to parse GEDCOM file with both parsers. Primary error: ''
       @ primary @ ''. Fallback error: '' @ fallback)"

definition parseGedcomWithFallback ::
  "'txt decoders \<Rightarrow> (string \<Rightarrow> string) \<Rightarrow> 'txt parsers \<Rightarrow> byte list
     \<Rightarrow> 'txt call list \<times> (error + ParseResult)" where
  "parseGedcomWithFallback dec trim libs buffer =
     (case detectAndDecodeGedcom dec buffer of
        Inl msg \<Rightarrow> ([], Inl (decode_failure msg))
      | Inr gedcomText \<Rightarrow>
          (case primary_attempt trim libs gedcomText ''UTF-8'' of
             Inr r \<Rightarrow> ([ParseGedcomCall gedcomText], Inr r)
           | Inl primary \<Rightarrow>
               (case fallback_attempt trim libs buffer of
                  Inr r \<Rightarrow> ([ParseGedcomCall gedcomText, ReadGedcomCall buffer], Inr r)
                | Inl fallback \<Rightarrow>
                    ([ParseGedcomCall gedcomText, ReadGedcomCall buffer],
                     Inl (both_failed primary fallback)))))"

section \<open>The encoding detector as the specification words it\<close>

text \<open>
  The reference definition of the detector, after the specification: a buffer that
  begins \<open>EF BB BF\<close> loses these three bytes and is decoded as UTF-8; one that begins
  \<open>FF FE\<close> or \<open>FE FF\<close> loses two bytes and is decoded as UTF-16 little-endian; any
  other buffer is decoded whole as UTF-8.
\<close>

definition utf8_mark :: "byte list" where
  "utf8_mark = [0xEF, 0xBB, 0xBF]"

definition detect_reference :: "'txt decoders \<Rightarrow> byte list \<Rightarrow> string + 'txt" where
  "detect_reference dec buffer =
     (if take 3 buffer = utf8_mark then toString_utf8 dec (drop 3 buffer)
      else if take 2 buffer = [0xFF, 0xFE] \<or> take 2 buffer = [0xFE, 0xFF] then
        toString_utf16le dec (drop 2 buffer)
      else toString_utf8 dec buffer)"

section \<open>The decodings of the runtime\<close>

text \<open>
  A model of \<open>Buffer.toString\<close> for the two encodings the detector asks for, used where
  a statement needs to say which byte sequences are valid UTF-8 and what they decode
  to.  UTF-8 is decoded by the standard decoder: a lead byte fixes how many
  continuation bytes follow and the range of the first of them; a byte outside its
  range ends the sequence with a replacement and is read again as a lead byte; an
  unfinished sequence at the end gives a replacement.  No leading mark is removed by
  the decoder itself.  The text is a list of UTF-16 code units.
\<close>

datatype scalar = CodePoint nat | Malformed

record utf8_state =
  code_point :: nat
  bytes_needed :: nat
  bytes_seen :: nat
  lower_boundary :: nat
  upper_boundary :: nat

definition utf8_initial :: utf8_state where
  "utf8_initial = \<lparr>code_point = 0, bytes_needed = 0, bytes_seen = 0,
                    lower_boundary = 0x80, upper_boundary = 0xBF\<rparr>"

definition utf8_lead :: "nat \<Rightarrow> scalar list \<times> utf8_state" where
  "utf8_lead b =
     (if b \<le> 0x7F then ([CodePoint b], utf8_initial)
      else if 0xC2 \<le> b \<and> b \<le> 0xDF then
        ([], utf8_initial\<lparr>bytes_needed := 1, code_point := b mod 0x20\<rparr>)
      else if 0xE0 \<le> b \<and> b \<le> 0xEF then
        ([], utf8_initial\<lparr>bytes_needed := 2, code_point := b mod 0x10,
                          lower_boundary := (if b = 0xE0 then 0xA0 else 0x80),
                          upper_boundary := (if b = 0xED then 0x9F else 0xBF)\<rparr>)
      else if 0xF0 \<le> b \<and> b \<le> 0xF4 then
        ([], utf8_initial\<lparr>bytes_needed := 3, code_point := b mod 0x08,
                          lower_boundary := (if b = 0xF0 then 0x90 else 0x80),
                          upper_boundary := (if b = 0xF4 then 0x8F else 0xBF)\<rparr>)
      else ([Malformed], utf8_initial))"

definition utf8_step :: "utf8_state \<Rightarrow> nat \<Rightarrow> scalar list \<times> utf8_state" where
  "utf8_step s b =
     (if bytes_needed s = 0 then utf8_lead b
      else if b < lower_boundary s \<or> upper_boundary s < b then
        (Malformed # fst (utf8_lead b), snd (utf8_lead b))
      else if bytes_seen s + 1 = bytes_needed s then
        ([CodePoint (code_point s * 64 + b mod 64)], utf8_initial)
      else
        ([], s\<lparr>code_point := code_point s * 64 + b mod 64, bytes_seen := bytes_seen s + 1,
               lower_boundary := 0x80, upper_boundary := 0xBF\<rparr>))"

fun utf8_run :: "utf8_state \<Rightarrow> nat list \<Rightarrow> scalar list" where
  "utf8_run s [] = (if bytes_needed s = 0 then [] else [Malformed])"
| "utf8_run s (b # bs) = fst (utf8_step s b) @ utf8_run (snd (utf8_step s b)) bs"

definition utf8_scalars :: "byte list \<Rightarrow> scalar list" where
  "utf8_scalars buffer = utf8_run utf8_initial (map unat buffer)"

definition utf8_valid :: "byte list \<Rightarrow> bool" where
  "utf8_valid buffer = (Malformed \<notin> set (utf8_scalars buffer))"

definition utf16_units :: "scalar \<Rightarrow> 16 word list" where
  "utf16_units c =
     (case c of
        Malformed \<Rightarrow> [0xFFFD]
      | CodePoint n \<Rightarrow>
          if n < 0x10000 then [of_nat n]
          else [of_nat (0xD800 + (n - 0x10000) div 0x400),
                of_nat (0xDC00 + (n - 0x10000) mod 0x400)])"

definition utf8_text :: "byte list \<Rightarrow> 16 word list" where
  "utf8_text buffer = concat (map utf16_units (utf8_scalars buffer))"

fun utf16le_text :: "byte list \<Rightarrow> 16 word list" where
  "utf16le_text (lo # hi # rest) = of_nat (unat lo + 256 * unat hi) # utf16le_text rest"
| "utf16le_text _ = []"

definition node_decoders :: "(16 word list) decoders" where
  "node_decoders = \<lparr>toString_utf8 = (\<lambda>b. Inr (utf8_text b)),
                     toString_utf16le = (\<lambda>b. Inr (utf16le_text b))\<rparr>"

section \<open>Invariants of the traversal\<close>

text \<open>
  Inside a generation, the visited list is the recorded generations followed by the
  discoveries of this generation (\<open>shape\<close>); it never repeats an identifier
  (\<open>fresh\<close>).  At the head of the loop the visited list is the recorded generations
  followed by the current one, and no recorded generation is empty (\<open>outer_ok\<close>).
\<close>

definition shape :: "string list list \<Rightarrow> string list \<Rightarrow> walk \<Rightarrow> bool" where
  "shape G C w \<longleftrightarrow> generations_acc w = G \<and> currentGeneration w = C
     \<and> visitedPersons w = concat G @ nextGeneration w"

definition fresh :: "walk \<Rightarrow> bool" where
  "fresh w \<longleftrightarrow> distinct (visitedPersons w) \<and> visitedPersons w \<noteq> []"

definition outer_ok :: "walk \<Rightarrow> bool" where
  "outer_ok w \<longleftrightarrow> visitedPersons w = concat (generations_acc w) @ currentGeneration w
     \<and> (\<forall>g \<in> set (generations_acc w). g \<noteq> [])"

text \<open>
  The visited list is the root followed by what the edges discovered: their parents in
  the ancestor walk, their children in the descendant walk.
\<close>

definition anc_edges :: "string \<Rightarrow> walk \<Rightarrow> bool" where
  "anc_edges r w \<longleftrightarrow> visitedPersons w = r # map parent (edges_acc w)"

definition desc_edges :: "string \<Rightarrow> walk \<Rightarrow> bool" where
  "desc_edges r w \<longleftrightarrow> visitedPersons w = r # map child (edges_acc w)"

text \<open>
  Every edge of a descendant walk comes from a family of its parent that lists its
  child, and is labelled by comparing the parent with the husband of that family.
\<close>

definition desc_rel :: "(string \<rightharpoonup> ParsedPerson) \<Rightarrow> (string \<rightharpoonup> ParsedFamily) \<Rightarrow> walk \<Rightarrow> bool" where
  "desc_rel pm fm w \<longleftrightarrow>
     (\<forall>e \<in> set (edges_acc w). \<exists>person family familyId.
        pm (parent e) = Some person \<and> familyId \<in> set (fams person)
        \<and> fm familyId = Some family \<and> child e \<in> set (children family)
        \<and> relation e = (if husband family = Some (p_id person) then father else mother))"

section \<open>Sample data\<close>

text \<open>
  The family of the end-to-end example: John and Jane, their child, and the family
  record that joins them; \<open>orphan_tree\<close> is the same family with the records of the
  two parents left out of the person list.
\<close>

definition john :: ParsedPerson where
  "john = \<lparr>p_id = ''@I1@'', name = ''John Doe'', firstName = Some ''John'', lastName = Some ''Doe'',
            birthDate = ''01 JAN 1900'', deathDate = [], famc = [], fams = [''@F1@'']\<rparr>"

definition jane :: ParsedPerson where
  "jane = \<lparr>p_id = ''@I2@'', name = ''Jane Roe'', firstName = Some ''Jane'', lastName = Some ''Roe'',
            birthDate = [], deathDate = [], famc = [], fams = [''@F1@'']\<rparr>"

definition kid :: ParsedPerson where
  "kid = \<lparr>p_id = ''@I3@'', name = ''Kid Doe'', firstName = Some ''Kid'', lastName = Some ''Doe'',
           birthDate = [], deathDate = [], famc = [''@F1@''], fams = []\<rparr>"

definition doe_family :: ParsedFamily where
  "doe_family = \<lparr>f_id = ''@F1@'', husband = Some ''@I1@'', wife = Some ''@I2@'',
                  children = [''@I3@'']\<rparr>"

definition doe_tree :: ParseResult where
  "doe_tree = \<lparr>meta = \<lparr>individuals = 3, m_families = 1, encodingTag = ''UTF-8''\<rparr>,
                persons = [john, jane, kid], families = [doe_family]\<rparr>"

definition orphan_tree :: ParseResult where
  "orphan_tree = \<lparr>meta = \<lparr>individuals = 1, m_families = 1, encodingTag = ''UTF-8''\<rparr>,
                   persons = [kid], families = [doe_family]\<rparr>"

definition father_edge :: edge where
  "father_edge = \<lparr>parent = ''@I1@'', child = ''@I3@'', relation = father\<rparr>"

definition mother_edge :: edge where
  "mother_edge = \<lparr>parent = ''@I2@'', child = ''@I3@'', relation = mother\<rparr>"

definition doe_ancestors :: AncestryResult where
  "doe_ancestors = \<lparr>root = ''@I3@'', generations = [[''@I3@''], [''@I1@'', ''@I2@'']],
                     nodes = [kid, john, jane], edges = [father_edge, mother_edge]\<rparr>"

definition doe_descendants :: AncestryResult where
  "doe_descendants = \<lparr>root = ''@I1@'', generations = [[''@I1@''], [''@I3@'']],
                       nodes = [john, kid], edges = [father_edge]\<rparr>"

definition orphan_ancestors :: AncestryResult where
  "orphan_ancestors = \<lparr>root = ''@I3@'', generations = [[''@I3@''], [''@I1@'', ''@I2@'']],
                        nodes = [kid], edges = [father_edge, mother_edge]\<rparr>"

text \<open>
  The descendants of Jane, and a family walked by a person who is neither its husband
  nor its wife.
\<close>

definition jane_descendants :: AncestryResult where
  "jane_descendants = \<lparr>root = ''@I2@'', generations = [[''@I2@''], [''@I3@'']],
                        nodes = [jane, kid], edges = [mother_edge]\<rparr>"

definition stranger :: ParsedPerson where
  "stranger = \<lparr>p_id = ''@I7@'', name = [], firstName = None, lastName = None,
                birthDate = [], deathDate = [], famc = [], fams = [''@F1@'']\<rparr>"

definition stranger_tree :: ParseResult where
  "stranger_tree = \<lparr>meta = \<lparr>individuals = 2, m_families = 1, encodingTag = ''UTF-8''\<rparr>,
                     persons = [stranger, kid], families = [doe_family]\<rparr>"

definition stranger_edge :: edge where
  "stranger_edge = \<lparr>parent = ''@I7@'', child = ''@I3@'', relation = mother\<rparr>"

definition stranger_descendants :: AncestryResult where
  "stranger_descendants = \<lparr>root = ''@I7@'', generations = [[''@I7@''], [''@I3@'']],
                            nodes = [stranger, kid], edges = [stranger_edge]\<rparr>"

text \<open>
  Pedigree collapse: the father and the mother of \<open>@I1@\<close> are both children of
  \<open>@I4@\<close>, who is reached along two paths.
\<close>

definition bare_person :: "string \<Rightarrow> string list \<Rightarrow> string list \<Rightarrow> ParsedPerson" where
  "bare_person i c s = \<lparr>p_id = i, name = [], firstName = None, lastName = None,
                         birthDate = [], deathDate = [], famc = c, fams = s\<rparr>"

definition collapse_tree :: ParseResult where
  "collapse_tree =
     \<lparr>meta = \<lparr>individuals = 4, m_families = 2, encodingTag = ''UTF-8''\<rparr>,
      persons = [bare_person ''@I1@'' [''@F1@''] [],
                 bare_person ''@I2@'' [''@F2@''] [''@F1@''],
                 bare_person ''@I3@'' [''@F2@''] [''@F1@''],
                 bare_person ''@I4@'' [] [''@F2@'']],
      families = [\<lparr>f_id = ''@F1@'', husband = Some ''@I2@'', wife = Some ''@I3@'',
                    children = [''@I1@'']\<rparr>,
                  \<lparr>f_id = ''@F2@'', husband = Some ''@I4@'', wife = None,
                    children = [''@I2@'', ''@I3@'']\<rparr>]\<rparr>"

definition collapse_ancestors :: AncestryResult where
  "collapse_ancestors =
     \<lparr>root = ''@I1@'', generations = [[''@I1@''], [''@I2@'', ''@I3@''], [''@I4@'']],
      nodes = [bare_person ''@I1@'' [''@F1@''] [],
               bare_person ''@I2@'' [''@F2@''] [''@F1@''],
               bare_person ''@I3@'' [''@F2@''] [''@F1@''],
               bare_person ''@I4@'' [] [''@F2@'']],
      edges = [\<lparr>parent = ''@I2@'', child = ''@I1@'', relation = father\<rparr>,
               \<lparr>parent = ''@I3@'', child = ''@I1@'', relation = mother\<rparr>,
               \<lparr>parent = ''@I4@'', child = ''@I2@'', relation = father\<rparr>]\<rparr>"

text \<open>
  A record tree and an object graph for one person and one family, a \<open>trim\<close> that
  removes spaces, and external parsers that return them or throw.
\<close>

definition ascii_trim :: "string \<Rightarrow> string" where
  "ascii_trim s = rev (dropWhile (\<lambda>c. c = CHR '' '') (rev (dropWhile (\<lambda>c. c = CHR '' '') s)))"

definition doe_records :: node where
  "doe_records =
     Node ''root'' None None (Some
       [Node ''HEAD'' None None (Some [Node ''CHAR'' None (Some ''ANSEL'') (Some [])]),
        Node ''INDI'' (Some \<lparr>xref_id = Some ''@I1@'', pointer = None\<rparr>) None (Some
          [Node ''NAME'' None (Some ''John /Doe/'') (Some []),
           Node ''BIRT'' None None (Some [Node ''DATE'' None (Some ''01 JAN 1900'') (Some [])]),
           Node ''FAMS'' (Some \<lparr>xref_id = None, pointer = Some ''@F1@''\<rparr>) None (Some [])]),
        Node ''FAM'' (Some \<lparr>xref_id = Some ''@F1@'', pointer = None\<rparr>) None (Some
          [Node ''HUSB'' (Some \<lparr>xref_id = None, pointer = Some ''@I1@''\<rparr>) None (Some [])]),
        Node ''TRLR'' None None (Some [])])"

definition doe_graph :: rg_result where
  "doe_graph =
     \<lparr>rg_head = None,
      rg_individuals = Some
        [(''I1'', \<lparr>ind_name = Some [\<lparr>given = Some ''John'', surname = Some ''Doe''\<rparr>],
                   ind_birth = Some \<lparr>event_date_of = Some \<lparr>date_value = Some ''01 JAN 1900''\<rparr>\<rparr>,
                   ind_death = None, familyAsChild = None,
                   familyAsSpouse = Some [\<lparr>ref_family = Some ''F1''\<rparr>]\<rparr>)],
      rg_families = Some
        [(''F1'', \<lparr>fam_husband = Some \<lparr>ref_pointer = Some ''I1''\<rparr>, fam_wife = None,
                   fam_children = None\<rparr>)]\<rparr>"

definition john_alone :: "ParsedPerson list" where
  "john_alone = [john]"

definition john_family :: "ParsedFamily list" where
  "john_family = [\<lparr>f_id = ''@F1@'', husband = Some ''@I1@'', wife = None, children = []\<rparr>]"

definition primary_result :: ParseResult where
  "primary_result = \<lparr>meta = \<lparr>individuals = 1, m_families = 1, encodingTag = ''ANSEL''\<rparr>,
                      persons = john_alone, families = john_family\<rparr>"

definition fallback_result :: ParseResult where
  "fallback_result = \<lparr>meta = \<lparr>individuals = 1, m_families = 1, encodingTag = ''UTF-8''\<rparr>,
                       persons = john_alone, families = john_family\<rparr>"

text \<open>
  The external parsers of the samples answer for one argument only: the primary
  parser for the decoded text, the fallback parser for the whole buffer, mark
  included.
\<close>

definition marked_text :: "byte list" where
  "marked_text = [0xEF, 0xBB, 0xBF, 0x30, 0x20, 0x48, 0x45, 0x41, 0x44]"

definition decoded_text :: "16 word list" where
  "decoded_text = [0x30, 0x20, 0x48, 0x45, 0x41, 0x44]"

definition primary_libs :: "(16 word list) parsers" where
  "primary_libs =
     \<lparr>parseGedcom = (\<lambda>t. if t = decoded_text then Inr (Some doe_records) else Inl ''Empty input''),
      readGedcom = (\<lambda>b. Inl ''Not a GEDCOM file'')\<rparr>"

definition fallback_libs :: "(16 word list) parsers" where
  "fallback_libs =
     \<lparr>parseGedcom = (\<lambda>t. if t = decoded_text then Inr (Some (Node ''root'' None None None))
                           else Inl ''Empty input''),
      readGedcom = (\<lambda>b. if b = marked_text then Inr doe_graph else Inl ''Not a GEDCOM file'')\<rparr>"

definition broken_libs :: "(16 word list) parsers" where
  "broken_libs =
     \<lparr>parseGedcom = (\<lambda>t. if t = decoded_text then Inl ''Unexpected token'' else Inl ''Empty input''),
      readGedcom = (\<lambda>b. if b = marked_text then Inl ''Not a GEDCOM file'' else Inl ''Empty buffer'')\<rparr>"

definition too_long :: string where
  "too_long = ''Cannot create a string longer than 0x1fffffe8 characters''"

definition overlong_decoders :: "(16 word list) decoders" where
  "overlong_decoders = \<lparr>toString_utf8 = (\<lambda>b. Inl too_long),
                         toString_utf16le = (\<lambda>b. Inl too_long)\<rparr>"

text \<open>The bytes of \<open>0 HEAD\<close>, and a buffer that begins with the UTF-8 mark itself.\<close>

definition plain_text :: "byte list" where
  "plain_text = [0x30, 0x20, 0x48, 0x45, 0x41, 0x44]"

definition plain_units :: "16 word list" where
  "plain_units = [0x30, 0x20, 0x48, 0x45, 0x41, 0x44]"

definition double_mark :: "byte list" where
  "double_mark = [0xEF, 0xBB, 0xBF, 0x30]"

section \<open>Lemmas\<close>

subsection \<open>Folds and the two maps\<close>

lemma foldl_preserves:
  assumes "\<And>a x. P a \<Longrightarrow> P (f a x)" and "P a"
  shows "P (foldl f a xs)"
  using assms(2) by (induction xs arbitrary: a) (simp_all add: assms(1))

lemma foldl_preserves_mem:
  "(\<And>a x. x \<in> set xs \<Longrightarrow> P a \<Longrightarrow> P (f a x)) \<Longrightarrow> P a \<Longrightarrow> P (foldl f a xs)"
  by (induction xs arbitrary: a) simp_all

lemma person_fold_lookup:
  "foldl (\<lambda>m p. m(p_id p \<mapsto> p)) m ps k = Some q \<Longrightarrow> m k = Some q \<or> (q \<in> set ps \<and> p_id q = k)"
  by (induction ps arbitrary: m) (fastforce split: if_splits)+

lemma person_fold_dom:
  "dom (foldl (\<lambda>m p. m(p_id p \<mapsto> p)) m ps) = dom m \<union> p_id ` set ps"
  by (induction ps arbitrary: m) auto

lemma buildPersonMap_Some: "buildPersonMap ps k = Some q \<Longrightarrow> q \<in> set ps \<and> p_id q = k"
  unfolding buildPersonMap_def by (drule person_fold_lookup) simp

lemma dom_buildPersonMap: "dom (buildPersonMap ps) = p_id ` set ps"
  unfolding buildPersonMap_def by (simp add: person_fold_dom)

lemma buildPersonMap_None: "buildPersonMap ps i = None \<longleftrightarrow> i \<notin> p_id ` set ps"
  by (simp add: dom_buildPersonMap [symmetric] domIff)

lemma family_fold_lookup:
  "foldl (\<lambda>m f. m(f_id f \<mapsto> f)) m fs k = Some q \<Longrightarrow> m k = Some q \<or> (q \<in> set fs \<and> f_id q = k)"
  by (induction fs arbitrary: m) (fastforce split: if_splits)+

lemma buildFamilyMap_Some: "buildFamilyMap fs k = Some q \<Longrightarrow> q \<in> set fs \<and> f_id q = k"
  unfolding buildFamilyMap_def by (drule family_fold_lookup) simp

lemma materialize_ids:
  "map p_id (materialize (buildPersonMap ps) v) = filter (\<lambda>i. i \<in> p_id ` set ps) v"
proof -
  have "map p_id (materialize (buildPersonMap ps) v)
      = map (\<lambda>i. p_id (the (buildPersonMap ps i))) (filter (\<lambda>i. buildPersonMap ps i \<noteq> None) v)"
    by (simp add: materialize_def List.map_filter_def comp_def)
  also have "\<dots> = filter (\<lambda>i. buildPersonMap ps i \<noteq> None) v"
    by (induction v) (auto dest: buildPersonMap_Some)
  also have "\<dots> = filter (\<lambda>i. i \<in> p_id ` set ps) v"
    by (rule filter_cong) (simp_all add: buildPersonMap_None)
  finally show ?thesis .
qed

lemma materialize_subset: "set (materialize (buildPersonMap ps) v) \<subseteq> set ps"
  by (auto simp: materialize_def List.map_filter_def dest: buildPersonMap_Some)

lemma computeAncestors_Inr:
  "computeAncestors pr rootId n = Inr r \<Longrightarrow>
     buildPersonMap (persons pr) (canonicalizeId rootId) \<noteq> None
     \<and> root r = canonicalizeId rootId
     \<and> generations r = generations_acc (ancestors_walk pr rootId n)
     \<and> nodes r = materialize (buildPersonMap (persons pr)) (visitedPersons (ancestors_walk pr rootId n))
     \<and> edges r = edges_acc (ancestors_walk pr rootId n)"
  by (auto simp: computeAncestors_def Let_def split: if_splits)

lemma computeDescendants_Inr:
  "computeDescendants pr rootId n = Inr r \<Longrightarrow>
     buildPersonMap (persons pr) (canonicalizeId rootId) \<noteq> None
     \<and> root r = canonicalizeId rootId
     \<and> generations r = generations_acc (descendants_walk pr rootId n)
     \<and> nodes r = materialize (buildPersonMap (persons pr)) (visitedPersons (descendants_walk pr rootId n))
     \<and> edges r = edges_acc (descendants_walk pr rootId n)"
  by (auto simp: computeDescendants_def Let_def split: if_splits)

subsection \<open>The generation loop\<close>

lemma ancestors_loop_preserves:
  "(\<And>v. P v \<Longrightarrow> currentGeneration v \<noteq> [] \<Longrightarrow> P (ancestors_generation pm fm v))
   \<Longrightarrow> P w \<Longrightarrow> P (ancestors_loop pm fm n g w)"
proof (induction pm fm n g w rule: ancestors_loop.induct)
  case (1 pm fm n g w)
  show ?case
  proof (cases "of_int g < n \<and> currentGeneration w \<noteq> []")
    case True
    then have "P (ancestors_generation pm fm w)"
      using "1.prems" by simp
    with True "1.IH" "1.prems"(1) show ?thesis
      by (subst ancestors_loop.simps) simp
  next
    case False
    with "1.prems" show ?thesis
      by (subst ancestors_loop.simps) auto
  qed
qed

lemma descendants_loop_preserves:
  "(\<And>v. P v \<Longrightarrow> currentGeneration v \<noteq> [] \<Longrightarrow> P (descendants_generation pm fm v))
   \<Longrightarrow> P w \<Longrightarrow> P (descendants_loop pm fm n g w)"
proof (induction pm fm n g w rule: descendants_loop.induct)
  case (1 pm fm n g w)
  show ?case
  proof (cases "of_int g < n \<and> currentGeneration w \<noteq> []")
    case True
    then have "P (descendants_generation pm fm w)"
      using "1.prems" by simp
    with True "1.IH" "1.prems"(1) show ?thesis
      by (subst descendants_loop.simps) simp
  next
    case False
    with "1.prems" show ?thesis
      by (subst descendants_loop.simps) auto
  qed
qed

subsection \<open>Visited identifiers and generations\<close>

lemma shape_discover:
  "shape G C w \<Longrightarrow> x \<notin> set (visitedPersons w) \<Longrightarrow>
   shape G C (w\<lparr>nextGeneration := nextGeneration w @ [x],
           visitedPersons := set_add x (visitedPersons w), edges_acc := E\<rparr>)"
  by (simp add: shape_def set_add_def)

lemma fresh_discover:
  "fresh w \<Longrightarrow>
   fresh (w\<lparr>nextGeneration := N, visitedPersons := set_add x (visitedPersons w), edges_acc := E\<rparr>)"
  by (simp add: fresh_def set_add_def)

lemma visitHusband_shape: "shape G C w \<Longrightarrow> shape G C (visitHusband f p w)"
  unfolding visitHusband_def by (simp add: shape_discover split: option.splits)

lemma visitWife_shape: "shape G C w \<Longrightarrow> shape G C (visitWife f p w)"
  unfolding visitWife_def by (simp add: shape_discover split: option.splits)

lemma visitChild_shape: "shape G C w \<Longrightarrow> shape G C (visitChild q f p w c)"
  unfolding visitChild_def by (simp add: shape_discover)

lemma visitHusband_fresh: "fresh w \<Longrightarrow> fresh (visitHusband f p w)"
  unfolding visitHusband_def by (simp add: fresh_discover split: option.splits)

lemma visitWife_fresh: "fresh w \<Longrightarrow> fresh (visitWife f p w)"
  unfolding visitWife_def by (simp add: fresh_discover split: option.splits)

lemma visitChild_fresh: "fresh w \<Longrightarrow> fresh (visitChild q f p w c)"
  unfolding visitChild_def by (simp add: fresh_discover)

lemma ancestors_family_shape: "shape G C w \<Longrightarrow> shape G C (ancestors_family fm p w fid)"
  by (simp add: ancestors_family_def visitHusband_shape visitWife_shape split: option.splits)

lemma ancestors_family_fresh: "fresh w \<Longrightarrow> fresh (ancestors_family fm p w fid)"
  by (simp add: ancestors_family_def visitHusband_fresh visitWife_fresh split: option.splits)

lemma ancestors_person_shape: "shape G C w \<Longrightarrow> shape G C (ancestors_person pm fm w p)"
  unfolding ancestors_person_def
  by (auto split: option.splits intro: foldl_preserves ancestors_family_shape)

lemma ancestors_person_fresh: "fresh w \<Longrightarrow> fresh (ancestors_person pm fm w p)"
  unfolding ancestors_person_def
  by (auto split: option.splits intro: foldl_preserves ancestors_family_fresh)

lemma descendants_family_shape: "shape G C w \<Longrightarrow> shape G C (descendants_family fm q p w fid)"
  unfolding descendants_family_def
  by (auto split: option.splits intro: foldl_preserves visitChild_shape)

lemma descendants_family_fresh: "fresh w \<Longrightarrow> fresh (descendants_family fm q p w fid)"
  unfolding descendants_family_def
  by (auto split: option.splits intro: foldl_preserves visitChild_fresh)

lemma descendants_person_shape: "shape G C w \<Longrightarrow> shape G C (descendants_person pm fm w p)"
  unfolding descendants_person_def
  by (auto split: option.splits intro: foldl_preserves descendants_family_shape)

lemma descendants_person_fresh: "fresh w \<Longrightarrow> fresh (descendants_person pm fm w p)"
  unfolding descendants_person_def
  by (auto split: option.splits intro: foldl_preserves descendants_family_fresh)

lemma ancestors_generation_outer:
  assumes "outer_ok w" "currentGeneration w \<noteq> []"
  shows "outer_ok (ancestors_generation pm fm w)"
proof -
  let ?G = "generations_acc w @ [currentGeneration w]"
  let ?w1 = "w\<lparr>generations_acc := ?G, nextGeneration := []\<rparr>"
  have "shape ?G (currentGeneration w) ?w1"
    using assms by (simp add: shape_def outer_ok_def)
  then have "shape ?G (currentGeneration w) (foldl (ancestors_person pm fm) ?w1 (currentGeneration w))"
    by (rule foldl_preserves [rotated]) (rule ancestors_person_shape)
  then show ?thesis
    using assms by (simp add: ancestors_generation_def Let_def shape_def outer_ok_def)
qed

lemma ancestors_generation_fresh: "fresh w \<Longrightarrow> fresh (ancestors_generation pm fm w)"
proof -
  assume a: "fresh w"
  let ?w1 = "w\<lparr>generations_acc := generations_acc w @ [currentGeneration w], nextGeneration := []\<rparr>"
  have "fresh ?w1" using a by (simp add: fresh_def)
  then have "fresh (foldl (ancestors_person pm fm) ?w1 (currentGeneration w))"
    by (rule foldl_preserves [rotated]) (rule ancestors_person_fresh)
  then show ?thesis by (simp add: ancestors_generation_def Let_def fresh_def)
qed

lemma descendants_generation_outer:
  assumes "outer_ok w" "currentGeneration w \<noteq> []"
  shows "outer_ok (descendants_generation pm fm w)"
proof -
  let ?G = "generations_acc w @ [currentGeneration w]"
  let ?w1 = "w\<lparr>generations_acc := ?G, nextGeneration := []\<rparr>"
  have "shape ?G (currentGeneration w) ?w1"
    using assms by (simp add: shape_def outer_ok_def)
  then have "shape ?G (currentGeneration w) (foldl (descendants_person pm fm) ?w1 (currentGeneration w))"
    by (rule foldl_preserves [rotated]) (rule descendants_person_shape)
  then show ?thesis
    using assms by (simp add: descendants_generation_def Let_def shape_def outer_ok_def)
qed

lemma descendants_generation_fresh: "fresh w \<Longrightarrow> fresh (descendants_generation pm fm w)"
proof -
  assume a: "fresh w"
  let ?w1 = "w\<lparr>generations_acc := generations_acc w @ [currentGeneration w], nextGeneration := []\<rparr>"
  have "fresh ?w1" using a by (simp add: fresh_def)
  then have "fresh (foldl (descendants_person pm fm) ?w1 (currentGeneration w))"
    by (rule foldl_preserves [rotated]) (rule descendants_person_fresh)
  then show ?thesis by (simp add: descendants_generation_def Let_def fresh_def)
qed

lemma start_walk_outer: "outer_ok (start_walk r)"
  by (simp add: outer_ok_def start_walk_def set_add_def)

lemma start_walk_fresh: "fresh (start_walk r)"
  by (simp add: fresh_def start_walk_def set_add_def)

lemma ancestors_walk_outer: "outer_ok (ancestors_walk pr r n)"
  unfolding ancestors_walk_def
  by (rule ancestors_loop_preserves) (simp_all add: ancestors_generation_outer start_walk_outer)

lemma ancestors_walk_fresh: "fresh (ancestors_walk pr r n)"
  unfolding ancestors_walk_def
  by (rule ancestors_loop_preserves) (simp_all add: ancestors_generation_fresh start_walk_fresh)

lemma descendants_walk_outer: "outer_ok (descendants_walk pr r n)"
  unfolding descendants_walk_def
  by (rule descendants_loop_preserves) (simp_all add: descendants_generation_outer start_walk_outer)

lemma descendants_walk_fresh: "fresh (descendants_walk pr r n)"
  unfolding descendants_walk_def
  by (rule descendants_loop_preserves) (simp_all add: descendants_generation_fresh start_walk_fresh)

subsection \<open>Edges\<close>

lemma visitHusband_anc_edges: "anc_edges r w \<Longrightarrow> anc_edges r (visitHusband f p w)"
  unfolding visitHusband_def by (simp add: anc_edges_def set_add_def split: option.splits)

lemma visitWife_anc_edges: "anc_edges r w \<Longrightarrow> anc_edges r (visitWife f p w)"
  unfolding visitWife_def by (simp add: anc_edges_def set_add_def split: option.splits)

lemma visitChild_desc_edges: "desc_edges r w \<Longrightarrow> desc_edges r (visitChild q f p w c)"
  unfolding visitChild_def by (simp add: desc_edges_def set_add_def)

lemma ancestors_family_anc_edges: "anc_edges r w \<Longrightarrow> anc_edges r (ancestors_family fm p w fid)"
  by (simp add: ancestors_family_def visitHusband_anc_edges visitWife_anc_edges split: option.splits)

lemma ancestors_person_anc_edges: "anc_edges r w \<Longrightarrow> anc_edges r (ancestors_person pm fm w p)"
  unfolding ancestors_person_def
  by (auto split: option.splits intro: foldl_preserves ancestors_family_anc_edges)

lemma ancestors_generation_anc_edges:
  assumes "anc_edges r w"
  shows "anc_edges r (ancestors_generation pm fm w)"
proof -
  let ?w1 = "w\<lparr>generations_acc := generations_acc w @ [currentGeneration w], nextGeneration := []\<rparr>"
  have "anc_edges r ?w1" using assms by (simp add: anc_edges_def)
  then have "anc_edges r (foldl (ancestors_person pm fm) ?w1 (currentGeneration w))"
    by (rule foldl_preserves [rotated]) (rule ancestors_person_anc_edges)
  then show ?thesis by (simp add: ancestors_generation_def Let_def anc_edges_def)
qed

lemma start_walk_anc_edges: "anc_edges r (start_walk r)"
  by (simp add: anc_edges_def start_walk_def set_add_def)

lemma ancestors_walk_anc_edges: "anc_edges (canonicalizeId r) (ancestors_walk pr r n)"
  unfolding ancestors_walk_def
  by (rule ancestors_loop_preserves)
     (simp_all add: ancestors_generation_anc_edges start_walk_anc_edges)

lemma descendants_family_desc_edges: "desc_edges r w \<Longrightarrow> desc_edges r (descendants_family fm q p w fid)"
  unfolding descendants_family_def
  by (auto split: option.splits intro: foldl_preserves visitChild_desc_edges)

lemma descendants_person_desc_edges: "desc_edges r w \<Longrightarrow> desc_edges r (descendants_person pm fm w p)"
  unfolding descendants_person_def
  by (auto split: option.splits intro: foldl_preserves descendants_family_desc_edges)

lemma descendants_generation_desc_edges:
  assumes "desc_edges r w"
  shows "desc_edges r (descendants_generation pm fm w)"
proof -
  let ?w1 = "w\<lparr>generations_acc := generations_acc w @ [currentGeneration w], nextGeneration := []\<rparr>"
  have "desc_edges r ?w1" using assms by (simp add: desc_edges_def)
  then have "desc_edges r (foldl (descendants_person pm fm) ?w1 (currentGeneration w))"
    by (rule foldl_preserves [rotated]) (rule descendants_person_desc_edges)
  then show ?thesis by (simp add: descendants_generation_def Let_def desc_edges_def)
qed

lemma start_walk_desc_edges: "desc_edges r (start_walk r)"
  by (simp add: desc_edges_def start_walk_def set_add_def)

lemma descendants_walk_desc_edges: "desc_edges (canonicalizeId r) (descendants_walk pr r n)"
  unfolding descendants_walk_def
  by (rule descendants_loop_preserves)
     (simp_all add: descendants_generation_desc_edges start_walk_desc_edges)

lemma visitChild_desc_rel:
  assumes "desc_rel pm fm w" "pm p = Some q" "fid \<in> set (fams q)" "fm fid = Some f"
    "c \<in> set (children f)"
  shows "desc_rel pm fm (visitChild q f p w c)"
proof (cases "c \<in> set (visitedPersons w)")
  case True
  then show ?thesis using assms(1) by (simp add: visitChild_def)
next
  case False
  let ?e = "\<lparr>parent = p, child = c,
             relation = (if Some (p_id q) = husband f then father else mother)\<rparr>"
  have new: "\<exists>person family familyId.
        pm (parent ?e) = Some person \<and> familyId \<in> set (fams person)
        \<and> fm familyId = Some family \<and> child ?e \<in> set (children family)
        \<and> relation ?e = (if husband family = Some (p_id person) then father else mother)"
    using assms(2-5) by (intro exI [of _ q] exI [of _ f] exI [of _ fid]) auto
  have "edges_acc (visitChild q f p w c) = edges_acc w @ [?e]"
    using False by (simp add: visitChild_def)
  then show ?thesis
    using assms(1) new unfolding desc_rel_def by auto
qed

lemma descendants_family_desc_rel:
  assumes "desc_rel pm fm w" "pm p = Some q" "fid \<in> set (fams q)"
  shows "desc_rel pm fm (descendants_family fm q p w fid)"
proof (cases "fm fid")
  case None
  then show ?thesis using assms(1) by (simp add: descendants_family_def)
next
  case (Some f)
  have step: "\<And>a x. x \<in> set (children f) \<Longrightarrow> desc_rel pm fm a
      \<Longrightarrow> desc_rel pm fm (visitChild q f p a x)"
    using assms(2,3) Some by (blast intro: visitChild_desc_rel)
  have "desc_rel pm fm (foldl (visitChild q f p) w (children f))"
    using step assms(1) by (rule foldl_preserves_mem)
  with Some show ?thesis by (simp add: descendants_family_def)
qed

lemma descendants_person_desc_rel:
  assumes "desc_rel pm fm w"
  shows "desc_rel pm fm (descendants_person pm fm w p)"
proof (cases "pm p")
  case None
  then show ?thesis using assms by (simp add: descendants_person_def)
next
  case (Some q)
  have step: "\<And>a x. x \<in> set (fams q) \<Longrightarrow> desc_rel pm fm a
      \<Longrightarrow> desc_rel pm fm (descendants_family fm q p a x)"
    using Some by (blast intro: descendants_family_desc_rel)
  have "desc_rel pm fm (foldl (descendants_family fm q p) w (fams q))"
    using step assms by (rule foldl_preserves_mem)
  with Some show ?thesis by (simp add: descendants_person_def)
qed

lemma descendants_generation_desc_rel:
  assumes "desc_rel pm fm w"
  shows "desc_rel pm fm (descendants_generation pm fm w)"
proof -
  let ?w1 = "w\<lparr>generations_acc := generations_acc w @ [currentGeneration w], nextGeneration := []\<rparr>"
  have "desc_rel pm fm ?w1" using assms by (simp add: desc_rel_def)
  then have "desc_rel pm fm (foldl (descendants_person pm fm) ?w1 (currentGeneration w))"
    by (rule foldl_preserves [rotated]) (rule descendants_person_desc_rel)
  then show ?thesis by (simp add: descendants_generation_def Let_def desc_rel_def)
qed

lemma start_walk_desc_rel: "desc_rel pm fm (start_walk r)"
  by (simp add: desc_rel_def start_walk_def)

lemma descendants_walk_desc_rel:
  "desc_rel (buildPersonMap (persons pr)) (buildFamilyMap (families pr)) (descendants_walk pr r n)"
  unfolding descendants_walk_def
  by (rule descendants_loop_preserves)
     (simp_all add: descendants_generation_desc_rel start_walk_desc_rel)

lemma descendants_edge_origin:
  assumes "computeDescendants parseResult rootId maxGenerations = Inr r" "e \<in> set (edges r)"
  shows "\<exists>person family familyId.
           buildPersonMap (persons parseResult) (parent e) = Some person
         \<and> p_id person = parent e
         \<and> familyId \<in> set (fams person)
         \<and> buildFamilyMap (families parseResult) familyId = Some family
         \<and> child e \<in> set (children family)
         \<and> (relation e = father \<longleftrightarrow> husband family = Some (p_id person))
         \<and> (relation e = mother \<longleftrightarrow> husband family \<noteq> Some (p_id person))"
proof -
  let ?pm = "buildPersonMap (persons parseResult)" and ?fm = "buildFamilyMap (families parseResult)"
  have "e \<in> set (edges_acc (descendants_walk parseResult rootId maxGenerations))"
    using computeDescendants_Inr [OF assms(1)] assms(2) by simp
  then obtain person family familyId where h:
    "?pm (parent e) = Some person" "familyId \<in> set (fams person)"
    "?fm familyId = Some family" "child e \<in> set (children family)"
    "relation e = (if husband family = Some (p_id person) then father else mother)"
    using descendants_walk_desc_rel [of parseResult rootId maxGenerations]
    unfolding desc_rel_def by blast
  have "p_id person = parent e" using buildPersonMap_Some [OF h(1)] by simp
  with h show ?thesis
    by (intro exI [of _ person] exI [of _ family] exI [of _ familyId]) auto
qed

lemma visitChild_fold_exact:
  "\<exists>ds. nextGeneration (foldl (visitChild q f p) w cs) = nextGeneration w @ ds
     \<and> visitedPersons (foldl (visitChild q f p) w cs) = visitedPersons w @ ds
     \<and> edges_acc (foldl (visitChild q f p) w cs)
         = edges_acc w @ map (\<lambda>c. \<lparr>parent = p, child = c,
             relation = (if husband f = Some (p_id q) then father else mother)\<rparr>) ds
     \<and> set ds = set cs - set (visitedPersons w) \<and> distinct ds"
proof (induction cs arbitrary: w)
  case Nil
  show ?case by simp
next
  case (Cons c cs)
  let ?v = "visitChild q f p w c"
  obtain ds where ds:
    "nextGeneration (foldl (visitChild q f p) ?v cs) = nextGeneration ?v @ ds"
    "visitedPersons (foldl (visitChild q f p) ?v cs) = visitedPersons ?v @ ds"
    "edges_acc (foldl (visitChild q f p) ?v cs)
       = edges_acc ?v @ map (\<lambda>c. \<lparr>parent = p, child = c,
             relation = (if husband f = Some (p_id q) then father else mother)\<rparr>) ds"
    "set ds = set cs - set (visitedPersons ?v)" "distinct ds"
    using Cons.IH [of ?v] by blast
  show ?case
  proof (cases "c \<in> set (visitedPersons w)")
    case True
    then have "?v = w" by (simp add: visitChild_def)
    with ds True show ?thesis by (intro exI [of _ ds]) auto
  next
    case False
    then have n: "nextGeneration ?v = nextGeneration w @ [c]"
      and e: "edges_acc ?v = edges_acc w @ [\<lparr>parent = p, child = c,
             relation = (if husband f = Some (p_id q) then father else mother)\<rparr>]"
      and v: "visitedPersons ?v = visitedPersons w @ [c]"
      by (auto simp: visitChild_def set_add_def)
    from ds n e v False show ?thesis by (intro exI [of _ "c # ds"]) auto
  qed
qed

lemma descendants_family_exact:
  assumes "fm fid = Some f"
  shows "\<exists>ds. nextGeneration (descendants_family fm q p w fid) = nextGeneration w @ ds
     \<and> visitedPersons (descendants_family fm q p w fid) = visitedPersons w @ ds
     \<and> edges_acc (descendants_family fm q p w fid)
         = edges_acc w @ map (\<lambda>c. \<lparr>parent = p, child = c,
             relation = (if husband f = Some (p_id q) then father else mother)\<rparr>) ds
     \<and> set ds = set (children f) - set (visitedPersons w) \<and> distinct ds"
  using assms visitChild_fold_exact [of q f p w "children f"]
  by (simp add: descendants_family_def)

lemma descendants_family_grows:
  "\<exists>E. edges_acc (descendants_family fm q p w fid) = edges_acc w @ E
       \<and> (\<forall>e \<in> set E. parent e = p)
       \<and> set (visitedPersons (descendants_family fm q p w fid))
           = set (visitedPersons w) \<union> (case fm fid of None \<Rightarrow> {} | Some f \<Rightarrow> set (children f))"
proof (cases "fm fid")
  case None
  then show ?thesis by (simp add: descendants_family_def)
next
  case (Some f)
  from descendants_family_exact [where fm = fm and fid = fid and f = f and q = q and p = p and w = w] Some
  obtain ds where ds:
    "visitedPersons (descendants_family fm q p w fid) = visitedPersons w @ ds"
    "edges_acc (descendants_family fm q p w fid)
         = edges_acc w @ map (\<lambda>c. \<lparr>parent = p, child = c,
             relation = (if husband f = Some (p_id q) then father else mother)\<rparr>) ds"
    "set ds = set (children f) - set (visitedPersons w)"
    by blast
  show ?thesis
    using ds Some
    by (intro exI [of _ "map (\<lambda>c. \<lparr>parent = p, child = c,
             relation = (if husband f = Some (p_id q) then father else mother)\<rparr>) ds"]) auto
qed

lemma descendants_families_grow:
  "\<exists>E. edges_acc (foldl (descendants_family fm q p) w fids) = edges_acc w @ E
       \<and> (\<forall>e \<in> set E. parent e = p)
       \<and> set (visitedPersons w) \<subseteq> set (visitedPersons (foldl (descendants_family fm q p) w fids))
       \<and> (\<forall>fid \<in> set fids. \<forall>f. fm fid = Some f \<longrightarrow>
             set (children f) \<subseteq> set (visitedPersons (foldl (descendants_family fm q p) w fids)))"
proof (induction fids arbitrary: w)
  case Nil
  show ?case by simp
next
  case (Cons fid fids)
  let ?v = "descendants_family fm q p w fid"
  obtain E1 where s1: "edges_acc ?v = edges_acc w @ E1" "\<forall>e \<in> set E1. parent e = p"
    "set (visitedPersons ?v)
       = set (visitedPersons w) \<union> (case fm fid of None \<Rightarrow> {} | Some f \<Rightarrow> set (children f))"
    using descendants_family_grows [of fm q p w fid] by blast
  obtain E2 where s2: "edges_acc (foldl (descendants_family fm q p) ?v fids) = edges_acc ?v @ E2"
    "\<forall>e \<in> set E2. parent e = p"
    "set (visitedPersons ?v) \<subseteq> set (visitedPersons (foldl (descendants_family fm q p) ?v fids))"
    "\<forall>fid \<in> set fids. \<forall>f. fm fid = Some f \<longrightarrow>
             set (children f) \<subseteq> set (visitedPersons (foldl (descendants_family fm q p) ?v fids))"
    using Cons.IH [of ?v] by blast
  have head: "\<forall>f. fm fid = Some f \<longrightarrow>
      set (children f) \<subseteq> set (visitedPersons (foldl (descendants_family fm q p) ?v fids))"
    using s1(3) s2(3) by auto
  show ?case
    using s1 s2 head by (intro exI [of _ "E1 @ E2"]) auto
qed


lemma descendants_person_extends:
  "\<exists>E. edges_acc (descendants_person pm fm w p) = edges_acc w @ E"
proof (cases "pm p")
  case None
  then show ?thesis by (simp add: descendants_person_def)
next
  case (Some q)
  then show ?thesis
    using descendants_families_grow [of fm q p w "fams q"]
    by (auto simp: descendants_person_def)
qed

lemma descendants_generation_extends:
  "\<exists>E. edges_acc (descendants_generation pm fm w) = edges_acc w @ E"
proof -
  let ?w1 = "w\<lparr>generations_acc := generations_acc w @ [currentGeneration w], nextGeneration := []\<rparr>"
  have "\<exists>E. edges_acc (foldl (descendants_person pm fm) ?w1 (currentGeneration w)) = edges_acc w @ E"
  proof (rule foldl_preserves [where P = "\<lambda>v::walk. \<exists>E. edges_acc v = edges_acc w @ E"])
    fix a :: walk and x assume "\<exists>E. edges_acc a = edges_acc w @ E"
    then obtain E where "edges_acc a = edges_acc w @ E" by blast
    moreover obtain E' where "edges_acc (descendants_person pm fm a x) = edges_acc a @ E'"
      using descendants_person_extends [of pm fm a x] by blast
    ultimately show "\<exists>E. edges_acc (descendants_person pm fm a x) = edges_acc w @ E" by simp
  next
    show "\<exists>E. edges_acc ?w1 = edges_acc w @ E" by simp
  qed
  then show ?thesis by (simp add: descendants_generation_def Let_def)
qed

lemma descendants_loop_extends:
  "\<exists>E. edges_acc (descendants_loop pm fm n g w) = edges_acc w @ E"
proof (rule descendants_loop_preserves [where P = "\<lambda>v::walk. \<exists>E. edges_acc v = edges_acc w @ E"])
  fix v :: walk assume "\<exists>E. edges_acc v = edges_acc w @ E"
  then obtain E where "edges_acc v = edges_acc w @ E" by blast
  moreover obtain E' where "edges_acc (descendants_generation pm fm v) = edges_acc v @ E'"
    using descendants_generation_extends [of pm fm v] by blast
  ultimately show "\<exists>E. edges_acc (descendants_generation pm fm v) = edges_acc w @ E" by simp
next
  show "\<exists>E. edges_acc w = edges_acc w @ E" by simp
qed

lemma first_generation_children:
  assumes "pm r = Some person" "fid \<in> set (fams person)" "fm fid = Some f"
    "c \<in> set (children f)" "c \<noteq> r"
  shows "\<exists>e. e \<in> set (edges_acc (descendants_generation pm fm (start_walk r)))
            \<and> parent e = r \<and> child e = c"
proof -
  let ?w1 = "(start_walk r)\<lparr>generations_acc := generations_acc (start_walk r) @ [currentGeneration (start_walk r)],
      nextGeneration := []\<rparr>"
  let ?w2 = "foldl (descendants_family fm person r) ?w1 (fams person)"
  have g: "descendants_generation pm fm (start_walk r) = ?w2\<lparr>currentGeneration := nextGeneration ?w2\<rparr>"
    using assms(1)
    by (simp add: descendants_generation_def Let_def descendants_person_def start_walk_def)
  obtain E where E: "edges_acc ?w2 = edges_acc ?w1 @ E" "\<forall>e \<in> set E. parent e = r"
    "\<forall>fid \<in> set (fams person). \<forall>f. fm fid = Some f \<longrightarrow> set (children f) \<subseteq> set (visitedPersons ?w2)"
    using descendants_families_grow [of fm person r ?w1 "fams person"] by blast
  have e0: "edges_acc ?w1 = []" by (simp add: start_walk_def)
  have "desc_edges r (descendants_generation pm fm (start_walk r))"
    by (rule descendants_generation_desc_edges) (rule start_walk_desc_edges)
  then have v: "visitedPersons ?w2 = r # map child (edges_acc ?w2)"
    by (simp add: desc_edges_def g)
  have "c \<in> set (visitedPersons ?w2)" using E(3) assms(2,3,4) by blast
  then have "c \<in> set (map child (edges_acc ?w2))" using v assms(5) by auto
  then obtain e where e: "e \<in> set (edges_acc ?w2)" "child e = c" by auto
  then have "parent e = r" using E(1,2) e0 by simp
  with e show ?thesis by (intro exI [of _ e]) (simp add: g)
qed

lemma root_children_edges:
  assumes "computeDescendants pr rootId n = Inr r" "0 < n"
    "buildPersonMap (persons pr) (canonicalizeId rootId) = Some person"
    "fid \<in> set (fams person)" "buildFamilyMap (families pr) fid = Some f"
    "c \<in> set (children f)" "c \<noteq> canonicalizeId rootId"
  shows "\<exists>e. e \<in> set (edges r) \<and> parent e = canonicalizeId rootId \<and> child e = c"
proof -
  let ?pm = "buildPersonMap (persons pr)" and ?fm = "buildFamilyMap (families pr)"
  let ?s = "start_walk (canonicalizeId rootId)"
  have "descendants_walk pr rootId n = descendants_loop ?pm ?fm n 1 (descendants_generation ?pm ?fm ?s)"
    unfolding descendants_walk_def using assms(2)
    by (subst descendants_loop.simps) (simp add: start_walk_def)
  then obtain E where "edges_acc (descendants_walk pr rootId n)
      = edges_acc (descendants_generation ?pm ?fm ?s) @ E"
    using descendants_loop_extends [of ?pm ?fm n 1 "descendants_generation ?pm ?fm ?s"] by auto
  moreover have "edges r = edges_acc (descendants_walk pr rootId n)"
    using computeDescendants_Inr [OF assms(1)] by simp
  moreover obtain e where "e \<in> set (edges_acc (descendants_generation ?pm ?fm ?s))"
    "parent e = canonicalizeId rootId" "child e = c"
    using first_generation_children [where pm = ?pm and fm = ?fm and r = "canonicalizeId rootId"
        and person = person and fid = fid and f = f and c = c] assms(3,4,5,6,7)
    by blast
  ultimately show ?thesis by (intro exI [of _ e]) simp
qed

lemma root_children_relation:
  assumes "computeDescendants pr rootId n = Inr r" "0 < n"
    "buildPersonMap (persons pr) (canonicalizeId rootId) = Some person"
    "fid \<in> set (fams person)" "buildFamilyMap (families pr) fid = Some f"
    "c \<in> set (children f)" "c \<noteq> canonicalizeId rootId"
  shows "\<exists>e. e \<in> set (edges r) \<and> parent e = canonicalizeId rootId \<and> child e = c
     \<and> (\<exists>fid' f'. fid' \<in> set (fams person) \<and> buildFamilyMap (families pr) fid' = Some f'
           \<and> c \<in> set (children f')
           \<and> relation e = (if husband f' = Some (p_id person) then father else mother))"
proof -
  obtain e where e: "e \<in> set (edges r)" "parent e = canonicalizeId rootId" "child e = c"
    using root_children_edges [OF assms] by blast
  obtain person' f' fid' where o:
    "buildPersonMap (persons pr) (parent e) = Some person'" "fid' \<in> set (fams person')"
    "buildFamilyMap (families pr) fid' = Some f'" "child e \<in> set (children f')"
    "relation e = father \<longleftrightarrow> husband f' = Some (p_id person')"
    using descendants_edge_origin [OF assms(1) e(1)] by blast
  have same: "person' = person" using o(1) e(2) assms(3) by simp
  have "relation e = (if husband f' = Some (p_id person) then father else mother)"
    using o(5) same by (cases "relation e") auto
  with e o(2,3,4) same show ?thesis by blast
qed

subsection \<open>Number of generations\<close>

lemma visitHusband_gens: "generations_acc (visitHusband f p w) = generations_acc w"
  by (simp add: visitHusband_def split: option.splits)

lemma visitWife_gens: "generations_acc (visitWife f p w) = generations_acc w"
  by (simp add: visitWife_def split: option.splits)

lemma visitChild_gens: "generations_acc (visitChild q f p w c) = generations_acc w"
  by (simp add: visitChild_def)

lemma ancestors_family_gens: "generations_acc (ancestors_family fm p w fid) = generations_acc w"
  by (simp add: ancestors_family_def visitHusband_gens visitWife_gens split: option.splits)

lemma ancestors_person_gens: "generations_acc (ancestors_person pm fm w p) = generations_acc w"
proof (cases "pm p")
  case None
  then show ?thesis by (simp add: ancestors_person_def)
next
  case (Some q)
  have "generations_acc (foldl (ancestors_family fm p) w (famc q)) = generations_acc w"
    by (rule foldl_preserves [where P = "\<lambda>a. generations_acc a = generations_acc w"])
       (simp_all add: ancestors_family_gens)
  with Some show ?thesis by (simp add: ancestors_person_def)
qed

lemma ancestors_generation_gens:
  "generations_acc (ancestors_generation pm fm w) = generations_acc w @ [currentGeneration w]"
proof -
  let ?G = "generations_acc w @ [currentGeneration w]"
  let ?w1 = "w\<lparr>generations_acc := ?G, nextGeneration := []\<rparr>"
  have "generations_acc (foldl (ancestors_person pm fm) ?w1 (currentGeneration w)) = ?G"
    by (rule foldl_preserves [where P = "\<lambda>a. generations_acc a = ?G"])
       (simp_all add: ancestors_person_gens)
  then show ?thesis by (simp add: ancestors_generation_def Let_def)
qed

lemma descendants_family_gens: "generations_acc (descendants_family fm q p w fid) = generations_acc w"
proof (cases "fm fid")
  case None
  then show ?thesis by (simp add: descendants_family_def)
next
  case (Some f)
  have "generations_acc (foldl (visitChild q f p) w (children f)) = generations_acc w"
    by (rule foldl_preserves [where P = "\<lambda>a. generations_acc a = generations_acc w"])
       (simp_all add: visitChild_gens)
  with Some show ?thesis by (simp add: descendants_family_def)
qed

lemma descendants_person_gens: "generations_acc (descendants_person pm fm w p) = generations_acc w"
proof (cases "pm p")
  case None
  then show ?thesis by (simp add: descendants_person_def)
next
  case (Some q)
  have "generations_acc (foldl (descendants_family fm q p) w (fams q)) = generations_acc w"
    by (rule foldl_preserves [where P = "\<lambda>a. generations_acc a = generations_acc w"])
       (simp_all add: descendants_family_gens)
  with Some show ?thesis by (simp add: descendants_person_def)
qed

lemma descendants_generation_gens:
  "generations_acc (descendants_generation pm fm w) = generations_acc w @ [currentGeneration w]"
proof -
  let ?G = "generations_acc w @ [currentGeneration w]"
  let ?w1 = "w\<lparr>generations_acc := ?G, nextGeneration := []\<rparr>"
  have "generations_acc (foldl (descendants_person pm fm) ?w1 (currentGeneration w)) = ?G"
    by (rule foldl_preserves [where P = "\<lambda>a. generations_acc a = ?G"])
       (simp_all add: descendants_person_gens)
  then show ?thesis by (simp add: descendants_generation_def Let_def)
qed

lemma ancestors_loop_count:
  "int (length (generations_acc w)) = g \<Longrightarrow> g \<le> \<lceil>n\<rceil> \<Longrightarrow>
   int (length (generations_acc (ancestors_loop pm fm n g w))) \<le> \<lceil>n\<rceil>
   \<and> (int (length (generations_acc (ancestors_loop pm fm n g w))) < \<lceil>n\<rceil>
        \<longrightarrow> currentGeneration (ancestors_loop pm fm n g w) = [])"
proof (induction pm fm n g w rule: ancestors_loop.induct)
  case (1 pm fm n g w)
  show ?case
  proof (cases "of_int g < n \<and> currentGeneration w \<noteq> []")
    case True
    have "int (length (generations_acc (ancestors_generation pm fm w))) = g + 1"
      using "1.prems"(1) by (simp add: ancestors_generation_gens)
    moreover have "g + 1 \<le> \<lceil>n\<rceil>" using True by (simp add: less_ceiling_iff [symmetric])
    ultimately show ?thesis
      using "1.IH" [OF True] True by (subst (1 2 3) ancestors_loop.simps) simp
  next
    case False
    then have "currentGeneration w = [] \<or> \<not> g < \<lceil>n\<rceil>"
      by (auto simp: less_ceiling_iff)
    with False "1.prems" show ?thesis
      by (subst (1 2 3) ancestors_loop.simps) auto
  qed
qed

lemma descendants_loop_count:
  "int (length (generations_acc w)) = g \<Longrightarrow> g \<le> \<lceil>n\<rceil> \<Longrightarrow>
   int (length (generations_acc (descendants_loop pm fm n g w))) \<le> \<lceil>n\<rceil>
   \<and> (int (length (generations_acc (descendants_loop pm fm n g w))) < \<lceil>n\<rceil>
        \<longrightarrow> currentGeneration (descendants_loop pm fm n g w) = [])"
proof (induction pm fm n g w rule: descendants_loop.induct)
  case (1 pm fm n g w)
  show ?case
  proof (cases "of_int g < n \<and> currentGeneration w \<noteq> []")
    case True
    have "int (length (generations_acc (descendants_generation pm fm w))) = g + 1"
      using "1.prems"(1) by (simp add: descendants_generation_gens)
    moreover have "g + 1 \<le> \<lceil>n\<rceil>" using True by (simp add: less_ceiling_iff [symmetric])
    ultimately show ?thesis
      using "1.IH" [OF True] True by (subst (1 2 3) descendants_loop.simps) simp
  next
    case False
    then have "currentGeneration w = [] \<or> \<not> g < \<lceil>n\<rceil>"
      by (auto simp: less_ceiling_iff)
    with False "1.prems" show ?thesis
      by (subst (1 2 3) descendants_loop.simps) auto
  qed
qed

subsection \<open>Dangling references\<close>

lemma ancestors_family_skip:
  "foldl (ancestors_family fm p) w fids = foldl (ancestors_family fm p) w (filter (\<lambda>f. fm f \<noteq> None) fids)"
  by (induction fids arbitrary: w) (auto simp: ancestors_family_def)

lemma descendants_family_skip:
  "foldl (descendants_family fm q p) w fids = foldl (descendants_family fm q p) w (filter (\<lambda>f. fm f \<noteq> None) fids)"
  by (induction fids arbitrary: w) (auto simp: descendants_family_def)

lemma ancestors_person_skip:
  "foldl (ancestors_person pm fm) w ids = foldl (ancestors_person pm fm) w (filter (\<lambda>i. pm i \<noteq> None) ids)"
  by (induction ids arbitrary: w) (auto simp: ancestors_person_def)

lemma descendants_person_skip:
  "foldl (descendants_person pm fm) w ids = foldl (descendants_person pm fm) w (filter (\<lambda>i. pm i \<noteq> None) ids)"
  by (induction ids arbitrary: w) (auto simp: descendants_person_def)

subsection \<open>Parser\<close>

lemma normalizeParseGedcomResult_counts:
  "normalizeParseGedcomResult trim t g = Inr q \<Longrightarrow>
   individuals (meta q) = length (persons q) \<and> m_families (meta q) = length (families q)"
  by (auto simp: normalizeParseGedcomResult_def Let_def split: option.splits)

lemma normalizeReadGedcomResult_counts:
  "individuals (meta (normalizeReadGedcomResult trim x))
     = length (persons (normalizeReadGedcomResult trim x))
   \<and> m_families (meta (normalizeReadGedcomResult trim x))
     = length (families (normalizeReadGedcomResult trim x))"
  by (simp add: normalizeReadGedcomResult_def Let_def)

lemma detect_is_reference: "detectAndDecodeGedcom dec buffer = detect_reference dec buffer"
proof (cases buffer)
  case Nil
  then show ?thesis by (simp add: detectAndDecodeGedcom_def detect_reference_def utf8_mark_def)
next
  case (Cons a r1)
  note c1 = this
  show ?thesis
  proof (cases r1)
    case Nil
    with c1 show ?thesis
      by (simp add: detectAndDecodeGedcom_def detect_reference_def utf8_mark_def)
  next
    case (Cons b r2)
    note c2 = this
    show ?thesis
    proof (cases r2)
      case Nil
      with c1 c2 show ?thesis
        by (auto simp: detectAndDecodeGedcom_def detect_reference_def utf8_mark_def
            numeral_2_eq_2 numeral_3_eq_3)
    next
      case (Cons c r3)
      with c1 c2 show ?thesis
        by (auto simp: detectAndDecodeGedcom_def detect_reference_def utf8_mark_def
            numeral_2_eq_2 numeral_3_eq_3)
    qed
  qed
qed

lemma utf8_valid_first: "utf8_valid (x # rest) \<Longrightarrow> x \<noteq> 0xFF \<and> x \<noteq> 0xFE"
  by (auto simp: utf8_valid_def utf8_scalars_def utf8_step_def utf8_lead_def utf8_initial_def)

lemma detect_marked: "detectAndDecodeGedcom dec (utf8_mark @ b) = toString_utf8 dec b"
  by (simp add: detectAndDecodeGedcom_def utf8_mark_def)

lemmas utf8_eval = utf8_valid_def utf8_text_def utf8_scalars_def utf8_step_def utf8_lead_def
  utf8_initial_def utf16_units_def

text \<open>The sample data, evaluated.\<close>

lemma doe_ancestors_eval: "computeAncestors doe_tree ''I3'' 3 = Inr doe_ancestors"
  by code_simp

lemma doe_ancestors_walk_eval:
  "ancestors_walk doe_tree ''I3'' 3
     = \<lparr>generations_acc = [[''@I3@''], [''@I1@'', ''@I2@'']],
        visitedPersons = [''@I3@'', ''@I1@'', ''@I2@''],
        edges_acc = [father_edge, mother_edge], currentGeneration = [], nextGeneration = []\<rparr>"
  by code_simp

lemma doe_descendants_eval: "computeDescendants doe_tree ''I1'' 3 = Inr doe_descendants"
  by code_simp

lemma doe_descendants_walk_eval:
  "descendants_walk doe_tree ''I1'' 3
     = \<lparr>generations_acc = [[''@I1@''], [''@I3@'']], visitedPersons = [''@I1@'', ''@I3@''],
        edges_acc = [father_edge], currentGeneration = [], nextGeneration = []\<rparr>"
  by code_simp

lemma orphan_ancestors_eval: "computeAncestors orphan_tree ''I3'' 2 = Inr orphan_ancestors"
  by code_simp

lemma collapse_ancestors_eval: "computeAncestors collapse_tree ''I1'' 5 = Inr collapse_ancestors"
  by code_simp

lemma doe_ancestors_fractional_eval:
  "computeAncestors doe_tree ''I3'' (3 / 2) = Inr doe_ancestors"
  by code_simp

lemma plain_text_decoded: "toString_utf8 node_decoders plain_text = Inr plain_units"
  by (simp add: node_decoders_def utf8_eval plain_text_def plain_units_def)

lemma marked_text_detected: "detectAndDecodeGedcom node_decoders marked_text = Inr decoded_text"
  by (simp add: detectAndDecodeGedcom_def node_decoders_def utf8_eval marked_text_def
      decoded_text_def)

lemma doe_records_normalized:
  "normalizeParseGedcomResult ascii_trim (Some doe_records) ''UTF-8'' = Inr primary_result"
  by code_simp

lemma childless_rejected:
  "normalizeParseGedcomResult ascii_trim (Some (Node ''root'' None None None)) ''UTF-8''
     = Inl (NodeOperationError ''Invalid GEDCOM structure'')"
  by code_simp

lemma doe_graph_normalized: "normalizeReadGedcomResult ascii_trim doe_graph = fallback_result"
  by code_simp

lemma primary_libs_parse: "parseGedcom primary_libs decoded_text = Inr (Some doe_records)"
  by (simp add: primary_libs_def)

lemma fallback_libs_parse:
  "parseGedcom fallback_libs decoded_text = Inr (Some (Node ''root'' None None None))"
  by (simp add: fallback_libs_def)

lemma fallback_libs_read: "readGedcom fallback_libs marked_text = Inr doe_graph"
  by (simp add: fallback_libs_def)

lemma broken_libs_parse: "parseGedcom broken_libs decoded_text = Inl ''Unexpected token''"
  by (simp add: broken_libs_def)

lemma broken_libs_read: "readGedcom broken_libs marked_text = Inl ''Not a GEDCOM file''"
  by (simp add: broken_libs_def)

lemma jane_descendants_eval: "computeDescendants doe_tree ''I2'' 3 = Inr jane_descendants"
  by code_simp

lemma stranger_descendants_eval:
  "computeDescendants stranger_tree ''I7'' 3 = Inr stranger_descendants"
  by code_simp

lemma overlong_detected:
  "detectAndDecodeGedcom overlong_decoders marked_text = Inl too_long"
  by (simp add: detectAndDecodeGedcom_def overlong_decoders_def marked_text_def)

section \<open>Claims\<close>

text \<open>
  C1.  Whenever \<open>parseGedcomWithFallback\<close> returns a \<open>ParseResult\<close>, through the
  primary normalizer or through the fallback normalizer, \<open>meta.individuals\<close> is the
  length of the persons list and \<open>meta.families\<close> the length of the families list.
\<close>

theorem parse_meta_counts:
  assumes "snd (parseGedcomWithFallback dec trim libs buffer) = Inr r"
  shows "individuals (meta r) = length (persons r) \<and> m_families (meta r) = length (families r)"
  using assms normalizeParseGedcomResult_counts normalizeReadGedcomResult_counts
  by (auto simp: parseGedcomWithFallback_def primary_attempt_def fallback_attempt_def
      split: sum.splits)

theorem parse_meta_counts_witness:
  "snd (parseGedcomWithFallback node_decoders ascii_trim primary_libs marked_text)
     = Inr primary_result
   \<and> individuals (meta primary_result) = length (persons primary_result)
   \<and> m_families (meta primary_result) = length (families primary_result)
   \<and> snd (parseGedcomWithFallback node_decoders ascii_trim fallback_libs marked_text)
     = Inr fallback_result
   \<and> individuals (meta fallback_result) = length (persons fallback_result)
   \<and> m_families (meta fallback_result) = length (families fallback_result)"
proof -
  have p: "snd (parseGedcomWithFallback node_decoders ascii_trim primary_libs marked_text)
      = Inr primary_result"
    by (simp add: parseGedcomWithFallback_def primary_attempt_def marked_text_detected
        primary_libs_parse doe_records_normalized)
  have f: "snd (parseGedcomWithFallback node_decoders ascii_trim fallback_libs marked_text)
      = Inr fallback_result"
    by (simp add: parseGedcomWithFallback_def primary_attempt_def fallback_attempt_def
        marked_text_detected fallback_libs_parse childless_rejected fallback_libs_read
        doe_graph_normalized error_message_def)
  show ?thesis
    using parse_meta_counts [OF p] parse_meta_counts [OF f] p f by simp
qed

text \<open>
  C2, as amended.  The nodes of a traversal are the person records of the visited
  identifiers that have a record in the persons list, in visiting order; a visited
  identifier without a record is left out.  So every identifier that occurs in a
  generation and is the id of a person of the persons list is the id of a node.  As
  stated (a node for every visited identifier) the claim fails on \<open>orphan_tree\<close>, where
  the family names two parents that have no record.
\<close>

theorem nodes_are_recorded_visited:
  "(computeAncestors parseResult rootId maxGenerations = Inr r \<longrightarrow>
      map p_id (nodes r) = filter (\<lambda>i. i \<in> p_id ` set (persons parseResult))
                             (visitedPersons (ancestors_walk parseResult rootId maxGenerations))
      \<and> set (nodes r) \<subseteq> set (persons parseResult)
      \<and> (\<forall>i \<in> set (concat (generations r)).
            i \<in> p_id ` set (persons parseResult) \<longrightarrow> i \<in> p_id ` set (nodes r)))
   \<and> (computeDescendants parseResult rootId maxGenerations = Inr r \<longrightarrow>
      map p_id (nodes r) = filter (\<lambda>i. i \<in> p_id ` set (persons parseResult))
                             (visitedPersons (descendants_walk parseResult rootId maxGenerations))
      \<and> set (nodes r) \<subseteq> set (persons parseResult)
      \<and> (\<forall>i \<in> set (concat (generations r)).
            i \<in> p_id ` set (persons parseResult) \<longrightarrow> i \<in> p_id ` set (nodes r)))"
proof (intro conjI impI ballI)
  assume a: "computeAncestors parseResult rootId maxGenerations = Inr r"
  let ?w = "ancestors_walk parseResult rootId maxGenerations"
  have n: "nodes r = materialize (buildPersonMap (persons parseResult)) (visitedPersons ?w)"
    and g: "generations r = generations_acc ?w"
    using computeAncestors_Inr [OF a] by simp_all
  show m: "map p_id (nodes r) = filter (\<lambda>i. i \<in> p_id ` set (persons parseResult)) (visitedPersons ?w)"
    by (simp add: n materialize_ids)
  show "set (nodes r) \<subseteq> set (persons parseResult)"
    by (simp add: n materialize_subset)
  fix i assume i: "i \<in> set (concat (generations r))" "i \<in> p_id ` set (persons parseResult)"
  have "visitedPersons ?w = concat (generations_acc ?w) @ currentGeneration ?w"
    using ancestors_walk_outer [of parseResult rootId maxGenerations] by (simp add: outer_ok_def)
  then have "i \<in> set (visitedPersons ?w)" using i(1) g by simp
  then have "i \<in> set (map p_id (nodes r))" using i(2) by (simp add: m)
  then show "i \<in> p_id ` set (nodes r)" by simp
next
  assume a: "computeDescendants parseResult rootId maxGenerations = Inr r"
  let ?w = "descendants_walk parseResult rootId maxGenerations"
  have n: "nodes r = materialize (buildPersonMap (persons parseResult)) (visitedPersons ?w)"
    and g: "generations r = generations_acc ?w"
    using computeDescendants_Inr [OF a] by simp_all
  show m: "map p_id (nodes r) = filter (\<lambda>i. i \<in> p_id ` set (persons parseResult)) (visitedPersons ?w)"
    by (simp add: n materialize_ids)
  show "set (nodes r) \<subseteq> set (persons parseResult)"
    by (simp add: n materialize_subset)
  fix i assume i: "i \<in> set (concat (generations r))" "i \<in> p_id ` set (persons parseResult)"
  have "visitedPersons ?w = concat (generations_acc ?w) @ currentGeneration ?w"
    using descendants_walk_outer [of parseResult rootId maxGenerations] by (simp add: outer_ok_def)
  then have "i \<in> set (visitedPersons ?w)" using i(1) g by simp
  then have "i \<in> set (map p_id (nodes r))" using i(2) by (simp add: m)
  then show "i \<in> p_id ` set (nodes r)" by simp
qed

theorem nodes_are_recorded_visited_witness:
  "computeAncestors orphan_tree ''I3'' 2 = Inr orphan_ancestors
   \<and> map p_id (nodes orphan_ancestors) = [''@I3@'']
   \<and> ''@I3@'' \<in> set (concat (generations orphan_ancestors))
   \<and> ''@I3@'' \<in> p_id ` set (persons orphan_tree)
   \<and> ''@I3@'' \<in> p_id ` set (nodes orphan_ancestors)
   \<and> computeDescendants doe_tree ''I1'' 3 = Inr doe_descendants
   \<and> map p_id (nodes doe_descendants) = [''@I1@'', ''@I3@'']"
proof -
  have a: "map p_id (nodes orphan_ancestors) = [''@I3@'']"
    and b: "''@I3@'' \<in> set (concat (generations orphan_ancestors))"
    and c: "''@I3@'' \<in> p_id ` set (persons orphan_tree)"
    and d: "''@I3@'' \<in> p_id ` set (nodes orphan_ancestors)"
    and e: "map p_id (nodes doe_descendants) = [''@I1@'', ''@I3@'']"
    by (simp_all add: orphan_ancestors_def orphan_tree_def doe_descendants_def kid_def john_def)
  show ?thesis
    using nodes_are_recorded_visited [of orphan_tree "''I3''" 2 orphan_ancestors]
      nodes_are_recorded_visited [of doe_tree "''I1''" 3 doe_descendants]
      orphan_ancestors_eval doe_descendants_eval a b c d e
    by blast
qed

theorem nodes_miss_unrecorded_person:
  "canonicalizeId ''I3'' \<in> p_id ` set (persons orphan_tree)
   \<and> computeAncestors orphan_tree ''I3'' 2 = Inr orphan_ancestors
   \<and> ''@I1@'' \<in> set (concat (generations orphan_ancestors))
   \<and> ''@I1@'' \<notin> p_id ` set (nodes orphan_ancestors)"
proof -
  have "canonicalizeId ''I3'' \<in> p_id ` set (persons orphan_tree)"
    by (simp add: canonicalizeId_def startsWith_def endsWith_def orphan_tree_def kid_def)
  moreover have "''@I1@'' \<in> set (concat (generations orphan_ancestors))"
    by (simp add: orphan_ancestors_def)
  moreover have "''@I1@'' \<notin> p_id ` set (nodes orphan_ancestors)"
    by (simp add: orphan_ancestors_def kid_def)
  ultimately show ?thesis using orphan_ancestors_eval by simp
qed

text \<open>
  C3.  In \<open>computeAncestors\<close> the visited identifiers are the root followed by the
  parents of the edges, in order: one edge for each identifier discovered beyond the
  root.  No identifier is visited twice, so no edge leads to the root or to a parent
  that another edge discovered; every relation is \<open>father\<close> or \<open>mother\<close>; no
  identifier occurs twice across the generations.
\<close>

theorem ancestors_one_edge_per_discovery:
  assumes "computeAncestors parseResult rootId maxGenerations = Inr r"
  shows "visitedPersons (ancestors_walk parseResult rootId maxGenerations)
           = canonicalizeId rootId # map parent (edges r)
    \<and> length (edges r) + 1 = length (visitedPersons (ancestors_walk parseResult rootId maxGenerations))
    \<and> distinct (visitedPersons (ancestors_walk parseResult rootId maxGenerations))
    \<and> (\<forall>e \<in> set (edges r). relation e = father \<or> relation e = mother)
    \<and> distinct (concat (generations r))
    \<and> set (concat (generations r)) \<subseteq> set (visitedPersons (ancestors_walk parseResult rootId maxGenerations))"
proof -
  let ?w = "ancestors_walk parseResult rootId maxGenerations"
  have e: "edges r = edges_acc ?w" and g: "generations r = generations_acc ?w"
    using computeAncestors_Inr [OF assms] by simp_all
  have v: "visitedPersons ?w = canonicalizeId rootId # map parent (edges r)"
    using ancestors_walk_anc_edges [of rootId parseResult maxGenerations]
    by (simp add: anc_edges_def e)
  have d: "distinct (visitedPersons ?w)"
    using ancestors_walk_fresh [of parseResult rootId maxGenerations] by (simp add: fresh_def)
  have s: "visitedPersons ?w = concat (generations_acc ?w) @ currentGeneration ?w"
    using ancestors_walk_outer [of parseResult rootId maxGenerations] by (simp add: outer_ok_def)
  have len: "length (edges r) + 1 = length (visitedPersons ?w)"
    by (subst v) simp
  have rel: "\<forall>e \<in> set (edges r). relation e = father \<or> relation e = mother"
    by (metis relation.exhaust)
  have dg: "distinct (concat (generations r))"
    using d unfolding s g by simp
  have sub: "set (concat (generations r)) \<subseteq> set (visitedPersons ?w)"
    unfolding g by (subst s) simp
  from v len d rel dg sub show ?thesis by blast
qed

theorem ancestors_one_edge_per_discovery_witness:
  "computeAncestors doe_tree ''I3'' 3 = Inr doe_ancestors
   \<and> visitedPersons (ancestors_walk doe_tree ''I3'' 3)
       = canonicalizeId ''I3'' # map parent (edges doe_ancestors)
   \<and> length (edges doe_ancestors) + 1 = length (visitedPersons (ancestors_walk doe_tree ''I3'' 3))
   \<and> distinct (visitedPersons (ancestors_walk doe_tree ''I3'' 3))
   \<and> distinct (concat (generations doe_ancestors))
   \<and> computeAncestors collapse_tree ''I1'' 5 = Inr collapse_ancestors
   \<and> visitedPersons (ancestors_walk collapse_tree ''I1'' 5)
       = canonicalizeId ''I1'' # map parent (edges collapse_ancestors)
   \<and> length (edges collapse_ancestors) + 1
       = length (visitedPersons (ancestors_walk collapse_tree ''I1'' 5))
   \<and> distinct (concat (generations collapse_ancestors))"
  using ancestors_one_edge_per_discovery [OF doe_ancestors_eval] doe_ancestors_eval
    ancestors_one_edge_per_discovery [OF collapse_ancestors_eval] collapse_ancestors_eval
  by blast

text \<open>
  C4.  When decoding fails, \<open>parseGedcomWithFallback\<close> fails with the decode error,
  which carries the decoder's message, and calls neither parser.  When decoding
  succeeds and the primary attempt throws, the parser on the decoded text or the
  normalizer on its tree, the fallback parser is called on the raw buffer; what the
  fallback normalizer makes of its answer is returned, or, when it throws too, one
  error whose message holds both messages.  A result is returned only as one of the
  two normalizers returned it.  The primary normalizer throws exactly on a tree that
  is absent or has no list of children.
\<close>

theorem parseGedcomWithFallback_failures:
  "(detectAndDecodeGedcom dec buffer = Inl msg \<longrightarrow>
      parseGedcomWithFallback dec trim libs buffer
        = ([], Inl (NodeOperationError (''Failed to decode GEDCOM file: '' @ msg))))
   \<and> (detectAndDecodeGedcom dec buffer = Inr gedcomText
        \<and> (parseGedcom libs gedcomText = Inl primary
           \<or> (\<exists>tree. parseGedcom libs gedcomText = Inr tree
                 \<and> normalizeParseGedcomResult trim tree ''UTF-8''
                     = Inl (NodeOperationError primary)))
        \<and> readGedcom libs buffer = Inl fallback \<longrightarrow>
      parseGedcomWithFallback dec trim libs buffer
        = ([ParseGedcomCall gedcomText, ReadGedcomCall buffer],
           Inl (NodeOperationError
                  (''Failed to parse GEDCOM file with both parsers. Primary error: ''
                     @ primary @ ''. Fallback error: '' @ fallback))))
   \<and> (detectAndDecodeGedcom dec buffer = Inr gedcomText
        \<and> (parseGedcom libs gedcomText = Inl primary
           \<or> (\<exists>tree. parseGedcom libs gedcomText = Inr tree
                 \<and> normalizeParseGedcomResult trim tree ''UTF-8''
                     = Inl (NodeOperationError primary)))
        \<and> readGedcom libs buffer = Inr graph \<longrightarrow>
      parseGedcomWithFallback dec trim libs buffer
        = ([ParseGedcomCall gedcomText, ReadGedcomCall buffer],
           Inr (normalizeReadGedcomResult trim graph)))
   \<and> (detectAndDecodeGedcom dec buffer = Inr gedcomText
        \<and> parseGedcom libs gedcomText = Inr parsed
        \<and> normalizeParseGedcomResult trim parsed ''UTF-8'' = Inr r \<longrightarrow>
      parseGedcomWithFallback dec trim libs buffer = ([ParseGedcomCall gedcomText], Inr r))
   \<and> (snd (parseGedcomWithFallback dec trim libs buffer) = Inr r \<longrightarrow>
        (\<exists>decoded. detectAndDecodeGedcom dec buffer = Inr decoded
           \<and> ((\<exists>tree. parseGedcom libs decoded = Inr tree
                  \<and> normalizeParseGedcomResult trim tree ''UTF-8'' = Inr r)
              \<or> (\<exists>answer. readGedcom libs buffer = Inr answer
                  \<and> r = normalizeReadGedcomResult trim answer))))
   \<and> ((\<exists>e. normalizeParseGedcomResult trim tree0 tag = Inl e)
        \<longleftrightarrow> (tree0 = None \<or> (\<exists>t. tree0 = Some t \<and> nchildren t = None)))
   \<and> (normalizeParseGedcomResult trim tree0 tag = Inl thrown \<longrightarrow>
        thrown = NodeOperationError ''Invalid GEDCOM structure'')"
proof -
  have c1: "detectAndDecodeGedcom dec buffer = Inl msg \<longrightarrow>
      parseGedcomWithFallback dec trim libs buffer
        = ([], Inl (NodeOperationError (''Failed to decode GEDCOM file: '' @ msg)))"
    by (simp add: parseGedcomWithFallback_def decode_failure_def)
  have pf: "primary_attempt trim libs gedcomText ''UTF-8'' = Inl primary"
    if "parseGedcom libs gedcomText = Inl primary
         \<or> (\<exists>tree. parseGedcom libs gedcomText = Inr tree
               \<and> normalizeParseGedcomResult trim tree ''UTF-8'' = Inl (NodeOperationError primary))"
    using that by (auto simp: primary_attempt_def error_message_def)
  have c2: "detectAndDecodeGedcom dec buffer = Inr gedcomText
        \<and> (parseGedcom libs gedcomText = Inl primary
           \<or> (\<exists>tree. parseGedcom libs gedcomText = Inr tree
                 \<and> normalizeParseGedcomResult trim tree ''UTF-8''
                     = Inl (NodeOperationError primary)))
        \<and> readGedcom libs buffer = Inl fallback \<longrightarrow>
      parseGedcomWithFallback dec trim libs buffer
        = ([ParseGedcomCall gedcomText, ReadGedcomCall buffer],
           Inl (NodeOperationError
                  (''Failed to parse GEDCOM file with both parsers. Primary error: ''
                     @ primary @ ''. Fallback error: '' @ fallback)))"
    using pf by (simp add: parseGedcomWithFallback_def fallback_attempt_def both_failed_def)
  have c3: "detectAndDecodeGedcom dec buffer = Inr gedcomText
        \<and> (parseGedcom libs gedcomText = Inl primary
           \<or> (\<exists>tree. parseGedcom libs gedcomText = Inr tree
                 \<and> normalizeParseGedcomResult trim tree ''UTF-8''
                     = Inl (NodeOperationError primary)))
        \<and> readGedcom libs buffer = Inr graph \<longrightarrow>
      parseGedcomWithFallback dec trim libs buffer
        = ([ParseGedcomCall gedcomText, ReadGedcomCall buffer],
           Inr (normalizeReadGedcomResult trim graph))"
    using pf by (simp add: parseGedcomWithFallback_def fallback_attempt_def)
  have c4: "detectAndDecodeGedcom dec buffer = Inr gedcomText
        \<and> parseGedcom libs gedcomText = Inr parsed
        \<and> normalizeParseGedcomResult trim parsed ''UTF-8'' = Inr r \<longrightarrow>
      parseGedcomWithFallback dec trim libs buffer = ([ParseGedcomCall gedcomText], Inr r)"
    by (simp add: parseGedcomWithFallback_def primary_attempt_def)
  have c5: "snd (parseGedcomWithFallback dec trim libs buffer) = Inr r \<longrightarrow>
        (\<exists>decoded. detectAndDecodeGedcom dec buffer = Inr decoded
           \<and> ((\<exists>tree. parseGedcom libs decoded = Inr tree
                  \<and> normalizeParseGedcomResult trim tree ''UTF-8'' = Inr r)
              \<or> (\<exists>answer. readGedcom libs buffer = Inr answer
                  \<and> r = normalizeReadGedcomResult trim answer)))"
    by (auto simp: parseGedcomWithFallback_def primary_attempt_def fallback_attempt_def
        split: sum.splits)
  have c6: "(\<exists>e. normalizeParseGedcomResult trim tree0 tag = Inl e)
        \<longleftrightarrow> (tree0 = None \<or> (\<exists>t. tree0 = Some t \<and> nchildren t = None))"
    by (auto simp: normalizeParseGedcomResult_def Let_def split: option.splits)
  have c7: "normalizeParseGedcomResult trim tree0 tag = Inl thrown \<longrightarrow>
        thrown = NodeOperationError ''Invalid GEDCOM structure''"
    by (auto simp: normalizeParseGedcomResult_def Let_def split: option.splits)
  show ?thesis
    by (intro conjI c1 c2 c3 c4 c5 c6 c7)
qed

theorem parseGedcomWithFallback_failures_witness:
  "detectAndDecodeGedcom overlong_decoders marked_text = Inl too_long
   \<and> parseGedcomWithFallback overlong_decoders ascii_trim primary_libs marked_text
       = ([], Inl (NodeOperationError (''Failed to decode GEDCOM file: '' @ too_long)))
   \<and> detectAndDecodeGedcom node_decoders marked_text = Inr decoded_text
   \<and> parseGedcom broken_libs decoded_text = Inl ''Unexpected token''
   \<and> readGedcom broken_libs marked_text = Inl ''Not a GEDCOM file''
   \<and> parseGedcomWithFallback node_decoders ascii_trim broken_libs marked_text
       = ([ParseGedcomCall decoded_text, ReadGedcomCall marked_text],
          Inl (NodeOperationError
                 (''Failed to parse GEDCOM file with both parsers. Primary error: ''
                    @ ''Unexpected token'' @ ''. Fallback error: '' @ ''Not a GEDCOM file'')))
   \<and> parseGedcom fallback_libs decoded_text = Inr (Some (Node ''root'' None None None))
   \<and> normalizeParseGedcomResult ascii_trim (Some (Node ''root'' None None None)) ''UTF-8''
       = Inl (NodeOperationError ''Invalid GEDCOM structure'')
   \<and> readGedcom fallback_libs marked_text = Inr doe_graph
   \<and> parseGedcomWithFallback node_decoders ascii_trim fallback_libs marked_text
       = ([ParseGedcomCall decoded_text, ReadGedcomCall marked_text],
          Inr (normalizeReadGedcomResult ascii_trim doe_graph))
   \<and> parseGedcom primary_libs decoded_text = Inr (Some doe_records)
   \<and> normalizeParseGedcomResult ascii_trim (Some doe_records) ''UTF-8'' = Inr primary_result
   \<and> parseGedcomWithFallback node_decoders ascii_trim primary_libs marked_text
       = ([ParseGedcomCall decoded_text], Inr primary_result)
   \<and> (\<exists>decoded. detectAndDecodeGedcom node_decoders marked_text = Inr decoded
         \<and> ((\<exists>tree. parseGedcom primary_libs decoded = Inr tree
                \<and> normalizeParseGedcomResult ascii_trim tree ''UTF-8'' = Inr primary_result)
            \<or> (\<exists>answer. readGedcom primary_libs marked_text = Inr answer
                \<and> primary_result = normalizeReadGedcomResult ascii_trim answer)))"
proof -
  note T = parseGedcomWithFallback_failures
  have h2: "detectAndDecodeGedcom node_decoders marked_text = Inr decoded_text
        \<and> (parseGedcom broken_libs decoded_text = Inl ''Unexpected token''
           \<or> (\<exists>tree. parseGedcom broken_libs decoded_text = Inr tree
                 \<and> normalizeParseGedcomResult ascii_trim tree ''UTF-8''
                     = Inl (NodeOperationError ''Unexpected token'')))
        \<and> readGedcom broken_libs marked_text = Inl ''Not a GEDCOM file''"
    by (intro conjI disjI1 marked_text_detected broken_libs_parse broken_libs_read)
  have childless: "\<exists>tree. parseGedcom fallback_libs decoded_text = Inr tree
       \<and> normalizeParseGedcomResult ascii_trim tree ''UTF-8''
           = Inl (NodeOperationError ''Invalid GEDCOM structure'')"
    by (intro exI [of _ "Some (Node ''root'' None None None)"] conjI fallback_libs_parse
        childless_rejected)
  have h3: "detectAndDecodeGedcom node_decoders marked_text = Inr decoded_text
        \<and> (parseGedcom fallback_libs decoded_text = Inl ''Invalid GEDCOM structure''
           \<or> (\<exists>tree. parseGedcom fallback_libs decoded_text = Inr tree
                 \<and> normalizeParseGedcomResult ascii_trim tree ''UTF-8''
                     = Inl (NodeOperationError ''Invalid GEDCOM structure'')))
        \<and> readGedcom fallback_libs marked_text = Inr doe_graph"
    by (intro conjI disjI2 marked_text_detected childless fallback_libs_read)
  have h4: "detectAndDecodeGedcom node_decoders marked_text = Inr decoded_text
        \<and> parseGedcom primary_libs decoded_text = Inr (Some doe_records)
        \<and> normalizeParseGedcomResult ascii_trim (Some doe_records) ''UTF-8'' = Inr primary_result"
    by (intro conjI marked_text_detected primary_libs_parse doe_records_normalized)
  note decode = T [where dec = overlong_decoders and buffer = marked_text and msg = too_long
      and trim = ascii_trim and libs = primary_libs, THEN conjunct1, rule_format,
      OF overlong_detected]
  note both = T [where dec = node_decoders and buffer = marked_text
      and gedcomText = decoded_text and trim = ascii_trim and libs = broken_libs
      and primary = "''Unexpected token''" and fallback = "''Not a GEDCOM file''",
      THEN conjunct2, THEN conjunct1, rule_format, OF h2]
  note second = T [where dec = node_decoders and buffer = marked_text
      and gedcomText = decoded_text and trim = ascii_trim and libs = fallback_libs
      and primary = "''Invalid GEDCOM structure''" and graph = doe_graph,
      THEN conjunct2, THEN conjunct2, THEN conjunct1, rule_format, OF h3]
  note first = T [where dec = node_decoders and buffer = marked_text
      and gedcomText = decoded_text and trim = ascii_trim and libs = primary_libs
      and parsed = "Some doe_records" and r = primary_result,
      THEN conjunct2, THEN conjunct2, THEN conjunct2, THEN conjunct1, rule_format, OF h4]
  have s: "snd (parseGedcomWithFallback node_decoders ascii_trim primary_libs marked_text)
      = Inr primary_result"
    by (simp add: first)
  note whole = T [where dec = node_decoders and buffer = marked_text and trim = ascii_trim
      and libs = primary_libs and r = primary_result,
      THEN conjunct2, THEN conjunct2, THEN conjunct2, THEN conjunct2, THEN conjunct1,
      rule_format, OF s]
  show ?thesis
    by (intro conjI overlong_detected decode marked_text_detected broken_libs_parse
        broken_libs_read both fallback_libs_parse childless_rejected fallback_libs_read second
        primary_libs_parse doe_records_normalized first whole)
qed

text \<open>
  C5.  The encoding detector is the reference definition: a buffer that begins
  \<open>EF BB BF\<close> loses three bytes and is decoded as UTF-8, one that begins \<open>FF FE\<close> or
  \<open>FE FF\<close> loses two bytes and is decoded as UTF-16 little-endian (the big-endian mark
  too), any other buffer is decoded whole as UTF-8.
\<close>

theorem detector_refines_reference:
  "detectAndDecodeGedcom dec buffer = detect_reference dec buffer
   \<and> detectAndDecodeGedcom dec (0xEF # 0xBB # 0xBF # rest) = toString_utf8 dec rest
   \<and> detectAndDecodeGedcom dec (0xFF # 0xFE # rest) = toString_utf16le dec rest
   \<and> detectAndDecodeGedcom dec (0xFE # 0xFF # rest) = toString_utf16le dec rest"
proof (intro conjI)
  show "detectAndDecodeGedcom dec buffer = detect_reference dec buffer"
    by (rule detect_is_reference)
qed (simp_all add: detectAndDecodeGedcom_def)

text \<open>
  C6.  While \<open>computeDescendants\<close> walks a family for a person, the children it
  newly discovers are exactly the children of the family not visited before, each
  once, and each gets one edge, whose relation is \<open>father\<close> when the husband of that
  family is the id of the person and \<open>mother\<close> for any other person, the wife or a
  person who is neither spouse.  So every edge of the result joins a person to a child
  listed by one of the person's families, the husband of which decides its relation;
  and every child of a family of the root has an edge from the root, \<open>mother\<close> when
  the root is the husband of none of its families that list the child, \<open>father\<close> when
  it is the husband of all of them.
\<close>

theorem descendants_relation_by_husband:
  "(computeDescendants parseResult rootId maxGenerations = Inr r \<and> e \<in> set (edges r) \<longrightarrow>
      (\<exists>person family familyId.
           buildPersonMap (persons parseResult) (parent e) = Some person
         \<and> p_id person = parent e
         \<and> familyId \<in> set (fams person)
         \<and> buildFamilyMap (families parseResult) familyId = Some family
         \<and> child e \<in> set (children family)
         \<and> (relation e = father \<longleftrightarrow> husband family = Some (p_id person))
         \<and> (relation e = mother \<longleftrightarrow> husband family \<noteq> Some (p_id person))))
   \<and> (familyMap fid = Some fam \<longrightarrow>
      (\<exists>discovered.
           nextGeneration (descendants_family familyMap traverser personId w fid)
             = nextGeneration w @ discovered
         \<and> visitedPersons (descendants_family familyMap traverser personId w fid)
             = visitedPersons w @ discovered
         \<and> edges_acc (descendants_family familyMap traverser personId w fid)
             = edges_acc w @ map (\<lambda>c. \<lparr>parent = personId, child = c,
                 relation = (if husband fam = Some (p_id traverser) then father else mother)\<rparr>)
                 discovered
         \<and> set discovered = set (children fam) - set (visitedPersons w)
         \<and> distinct discovered))
   \<and> (computeDescendants parseResult rootId maxGenerations = Inr r \<and> 0 < maxGenerations
        \<and> buildPersonMap (persons parseResult) (canonicalizeId rootId) = Some rootPerson
        \<and> rootFamilyId \<in> set (fams rootPerson)
        \<and> buildFamilyMap (families parseResult) rootFamilyId = Some rootFamily
        \<and> c \<in> set (children rootFamily) \<and> c \<noteq> canonicalizeId rootId \<longrightarrow>
      (\<exists>e. e \<in> set (edges r) \<and> parent e = canonicalizeId rootId \<and> child e = c
         \<and> (\<exists>fid' f'. fid' \<in> set (fams rootPerson)
               \<and> buildFamilyMap (families parseResult) fid' = Some f'
               \<and> c \<in> set (children f')
               \<and> relation e = (if husband f' = Some (p_id rootPerson) then father else mother))))
   \<and> (computeDescendants parseResult rootId maxGenerations = Inr r \<and> 0 < maxGenerations
        \<and> buildPersonMap (persons parseResult) (canonicalizeId rootId) = Some rootPerson
        \<and> rootFamilyId \<in> set (fams rootPerson)
        \<and> buildFamilyMap (families parseResult) rootFamilyId = Some rootFamily
        \<and> c \<in> set (children rootFamily) \<and> c \<noteq> canonicalizeId rootId
        \<and> (\<forall>fid' f'. fid' \<in> set (fams rootPerson)
               \<and> buildFamilyMap (families parseResult) fid' = Some f'
               \<and> c \<in> set (children f') \<longrightarrow> husband f' \<noteq> Some (p_id rootPerson)) \<longrightarrow>
      (\<exists>e. e \<in> set (edges r) \<and> parent e = canonicalizeId rootId \<and> child e = c
         \<and> relation e = mother))
   \<and> (computeDescendants parseResult rootId maxGenerations = Inr r \<and> 0 < maxGenerations
        \<and> buildPersonMap (persons parseResult) (canonicalizeId rootId) = Some rootPerson
        \<and> rootFamilyId \<in> set (fams rootPerson)
        \<and> buildFamilyMap (families parseResult) rootFamilyId = Some rootFamily
        \<and> c \<in> set (children rootFamily) \<and> c \<noteq> canonicalizeId rootId
        \<and> (\<forall>fid' f'. fid' \<in> set (fams rootPerson)
               \<and> buildFamilyMap (families parseResult) fid' = Some f'
               \<and> c \<in> set (children f') \<longrightarrow> husband f' = Some (p_id rootPerson)) \<longrightarrow>
      (\<exists>e. e \<in> set (edges r) \<and> parent e = canonicalizeId rootId \<and> child e = c
         \<and> relation e = father))"
proof -
  have c1: "computeDescendants parseResult rootId maxGenerations = Inr r \<and> e \<in> set (edges r) \<longrightarrow>
      (\<exists>person family familyId.
           buildPersonMap (persons parseResult) (parent e) = Some person
         \<and> p_id person = parent e
         \<and> familyId \<in> set (fams person)
         \<and> buildFamilyMap (families parseResult) familyId = Some family
         \<and> child e \<in> set (children family)
         \<and> (relation e = father \<longleftrightarrow> husband family = Some (p_id person))
         \<and> (relation e = mother \<longleftrightarrow> husband family \<noteq> Some (p_id person)))"
    using descendants_edge_origin [of parseResult rootId maxGenerations r e] by blast
  have c2: "familyMap fid = Some fam \<longrightarrow>
      (\<exists>discovered.
           nextGeneration (descendants_family familyMap traverser personId w fid)
             = nextGeneration w @ discovered
         \<and> visitedPersons (descendants_family familyMap traverser personId w fid)
             = visitedPersons w @ discovered
         \<and> edges_acc (descendants_family familyMap traverser personId w fid)
             = edges_acc w @ map (\<lambda>c. \<lparr>parent = personId, child = c,
                 relation = (if husband fam = Some (p_id traverser) then father else mother)\<rparr>)
                 discovered
         \<and> set discovered = set (children fam) - set (visitedPersons w)
         \<and> distinct discovered)"
    by (rule impI) (rule descendants_family_exact)
  have c3: "\<exists>e. e \<in> set (edges r) \<and> parent e = canonicalizeId rootId \<and> child e = c
         \<and> (\<exists>fid' f'. fid' \<in> set (fams rootPerson)
               \<and> buildFamilyMap (families parseResult) fid' = Some f'
               \<and> c \<in> set (children f')
               \<and> relation e = (if husband f' = Some (p_id rootPerson) then father else mother))"
    if "computeDescendants parseResult rootId maxGenerations = Inr r \<and> 0 < maxGenerations
        \<and> buildPersonMap (persons parseResult) (canonicalizeId rootId) = Some rootPerson
        \<and> rootFamilyId \<in> set (fams rootPerson)
        \<and> buildFamilyMap (families parseResult) rootFamilyId = Some rootFamily
        \<and> c \<in> set (children rootFamily) \<and> c \<noteq> canonicalizeId rootId"
    using that
      root_children_relation [of parseResult rootId maxGenerations r rootPerson rootFamilyId
        rootFamily c]
    by blast
  have c4: "\<exists>e. e \<in> set (edges r) \<and> parent e = canonicalizeId rootId \<and> child e = c
         \<and> relation e = mother"
    if h: "computeDescendants parseResult rootId maxGenerations = Inr r \<and> 0 < maxGenerations
        \<and> buildPersonMap (persons parseResult) (canonicalizeId rootId) = Some rootPerson
        \<and> rootFamilyId \<in> set (fams rootPerson)
        \<and> buildFamilyMap (families parseResult) rootFamilyId = Some rootFamily
        \<and> c \<in> set (children rootFamily) \<and> c \<noteq> canonicalizeId rootId
        \<and> (\<forall>fid' f'. fid' \<in> set (fams rootPerson)
               \<and> buildFamilyMap (families parseResult) fid' = Some f'
               \<and> c \<in> set (children f') \<longrightarrow> husband f' \<noteq> Some (p_id rootPerson))"
  proof -
    obtain e fid' f' where e: "e \<in> set (edges r)" "parent e = canonicalizeId rootId"
      "child e = c" "fid' \<in> set (fams rootPerson)"
      "buildFamilyMap (families parseResult) fid' = Some f'" "c \<in> set (children f')"
      "relation e = (if husband f' = Some (p_id rootPerson) then father else mother)"
      using c3 h by blast
    have "husband f' \<noteq> Some (p_id rootPerson)" using h e(4,5,6) by blast
    with e(7) have "relation e = mother" by simp
    with e(1,2,3) show ?thesis by blast
  qed
  have c5: "\<exists>e. e \<in> set (edges r) \<and> parent e = canonicalizeId rootId \<and> child e = c
         \<and> relation e = father"
    if h: "computeDescendants parseResult rootId maxGenerations = Inr r \<and> 0 < maxGenerations
        \<and> buildPersonMap (persons parseResult) (canonicalizeId rootId) = Some rootPerson
        \<and> rootFamilyId \<in> set (fams rootPerson)
        \<and> buildFamilyMap (families parseResult) rootFamilyId = Some rootFamily
        \<and> c \<in> set (children rootFamily) \<and> c \<noteq> canonicalizeId rootId
        \<and> (\<forall>fid' f'. fid' \<in> set (fams rootPerson)
               \<and> buildFamilyMap (families parseResult) fid' = Some f'
               \<and> c \<in> set (children f') \<longrightarrow> husband f' = Some (p_id rootPerson))"
  proof -
    obtain e fid' f' where e: "e \<in> set (edges r)" "parent e = canonicalizeId rootId"
      "child e = c" "fid' \<in> set (fams rootPerson)"
      "buildFamilyMap (families parseResult) fid' = Some f'" "c \<in> set (children f')"
      "relation e = (if husband f' = Some (p_id rootPerson) then father else mother)"
      using c3 h by blast
    have "husband f' = Some (p_id rootPerson)" using h e(4,5,6) by blast
    with e(7) have "relation e = father" by simp
    with e(1,2,3) show ?thesis by blast
  qed
  show ?thesis
    by (intro conjI c1 c2) (rule impI, erule c3, rule impI, erule c4, rule impI, erule c5)
qed

theorem descendants_relation_by_husband_witness:
  "computeDescendants doe_tree ''I1'' 3 = Inr doe_descendants
   \<and> father_edge \<in> set (edges doe_descendants)
   \<and> (\<exists>person family familyId.
           buildPersonMap (persons doe_tree) (parent father_edge) = Some person
         \<and> p_id person = parent father_edge
         \<and> familyId \<in> set (fams person)
         \<and> buildFamilyMap (families doe_tree) familyId = Some family
         \<and> child father_edge \<in> set (children family)
         \<and> (relation father_edge = father \<longleftrightarrow> husband family = Some (p_id person))
         \<and> (relation father_edge = mother \<longleftrightarrow> husband family \<noteq> Some (p_id person)))
   \<and> buildFamilyMap (families doe_tree) ''@F1@'' = Some doe_family
   \<and> (\<exists>discovered.
           nextGeneration (descendants_family (buildFamilyMap (families doe_tree)) jane ''@I2@''
               (start_walk ''@I2@'') ''@F1@'')
             = nextGeneration (start_walk ''@I2@'') @ discovered
         \<and> visitedPersons (descendants_family (buildFamilyMap (families doe_tree)) jane ''@I2@''
               (start_walk ''@I2@'') ''@F1@'')
             = visitedPersons (start_walk ''@I2@'') @ discovered
         \<and> edges_acc (descendants_family (buildFamilyMap (families doe_tree)) jane ''@I2@''
               (start_walk ''@I2@'') ''@F1@'')
             = edges_acc (start_walk ''@I2@'') @ map (\<lambda>c. \<lparr>parent = ''@I2@'', child = c,
                 relation = (if husband doe_family = Some (p_id jane) then father else mother)\<rparr>)
                 discovered
         \<and> set discovered = set (children doe_family) - set (visitedPersons (start_walk ''@I2@''))
         \<and> distinct discovered)
   \<and> computeDescendants doe_tree ''I2'' 3 = Inr jane_descendants
   \<and> (\<exists>e. e \<in> set (edges jane_descendants) \<and> parent e = canonicalizeId ''I2''
         \<and> child e = ''@I3@'' \<and> relation e = mother)
   \<and> computeDescendants stranger_tree ''I7'' 3 = Inr stranger_descendants
   \<and> (\<exists>e. e \<in> set (edges stranger_descendants) \<and> parent e = canonicalizeId ''I7''
         \<and> child e = ''@I3@'' \<and> relation e = mother)
   \<and> (\<exists>e. e \<in> set (edges doe_descendants) \<and> parent e = canonicalizeId ''I1''
         \<and> child e = ''@I3@'' \<and> relation e = father)
   \<and> (\<exists>e. e \<in> set (edges doe_descendants) \<and> parent e = canonicalizeId ''I1''
         \<and> child e = ''@I3@''
         \<and> (\<exists>fid' f'. fid' \<in> set (fams john)
               \<and> buildFamilyMap (families doe_tree) fid' = Some f'
               \<and> ''@I3@'' \<in> set (children f')
               \<and> relation e = (if husband f' = Some (p_id john) then father else mother)))"
proof -
  note T = descendants_relation_by_husband
  have m: "father_edge \<in> set (edges doe_descendants)"
    by (simp add: doe_descendants_def)
  have f: "buildFamilyMap (families doe_tree) ''@F1@'' = Some doe_family"
    by (simp add: buildFamilyMap_def doe_tree_def doe_family_def)
  have fs: "buildFamilyMap (families stranger_tree) ''@F1@'' = Some doe_family"
    by (simp add: buildFamilyMap_def stranger_tree_def doe_family_def)
  have three: "(0::rat) < 3" by simp
  have pj: "buildPersonMap (persons doe_tree) (canonicalizeId ''I1'') = Some john"
    and pw: "buildPersonMap (persons doe_tree) (canonicalizeId ''I2'') = Some jane"
    and ps: "buildPersonMap (persons stranger_tree) (canonicalizeId ''I7'') = Some stranger"
    by (simp_all add: buildPersonMap_def canonicalizeId_def startsWith_def endsWith_def
        doe_tree_def stranger_tree_def john_def jane_def kid_def stranger_def)
  have mj: "''@F1@'' \<in> set (fams john)" and mw: "''@F1@'' \<in> set (fams jane)"
    and ms: "''@F1@'' \<in> set (fams stranger)"
    by (simp_all add: john_def jane_def stranger_def)
  have k: "''@I3@'' \<in> set (children doe_family)" by (simp add: doe_family_def)
  have nj: "''@I3@'' \<noteq> canonicalizeId ''I1''" and nw: "''@I3@'' \<noteq> canonicalizeId ''I2''"
    and ns: "''@I3@'' \<noteq> canonicalizeId ''I7''"
    by (simp_all add: canonicalizeId_def startsWith_def endsWith_def)
  have all_j: "\<forall>fid' f'. fid' \<in> set (fams john)
        \<and> buildFamilyMap (families doe_tree) fid' = Some f'
        \<and> ''@I3@'' \<in> set (children f') \<longrightarrow> husband f' = Some (p_id john)"
    by (auto simp: john_def buildFamilyMap_def doe_tree_def doe_family_def)
  have all_w: "\<forall>fid' f'. fid' \<in> set (fams jane)
        \<and> buildFamilyMap (families doe_tree) fid' = Some f'
        \<and> ''@I3@'' \<in> set (children f') \<longrightarrow> husband f' \<noteq> Some (p_id jane)"
    by (auto simp: jane_def buildFamilyMap_def doe_tree_def doe_family_def)
  have all_s: "\<forall>fid' f'. fid' \<in> set (fams stranger)
        \<and> buildFamilyMap (families stranger_tree) fid' = Some f'
        \<and> ''@I3@'' \<in> set (children f') \<longrightarrow> husband f' \<noteq> Some (p_id stranger)"
    by (auto simp: stranger_def buildFamilyMap_def stranger_tree_def doe_family_def)
  note origin = T [where parseResult = doe_tree
      and rootId = "''I1''" and maxGenerations = 3 and r = doe_descendants and e = father_edge,
      THEN conjunct1, rule_format, OF conjI [OF doe_descendants_eval m]]
  note step = T [where familyMap = "buildFamilyMap (families doe_tree)"
      and fid = "''@F1@''" and fam = doe_family and traverser = jane and personId = "''@I2@''"
      and w = "start_walk ''@I2@''", THEN conjunct2, THEN conjunct1, rule_format, OF f]
  have hj: "computeDescendants doe_tree ''I1'' 3 = Inr doe_descendants \<and> (0::rat) < 3
        \<and> buildPersonMap (persons doe_tree) (canonicalizeId ''I1'') = Some john
        \<and> ''@F1@'' \<in> set (fams john)
        \<and> buildFamilyMap (families doe_tree) ''@F1@'' = Some doe_family
        \<and> ''@I3@'' \<in> set (children doe_family) \<and> ''@I3@'' \<noteq> canonicalizeId ''I1''"
    by (intro conjI doe_descendants_eval three pj mj f k nj)
  have hj_all: "computeDescendants doe_tree ''I1'' 3 = Inr doe_descendants \<and> (0::rat) < 3
        \<and> buildPersonMap (persons doe_tree) (canonicalizeId ''I1'') = Some john
        \<and> ''@F1@'' \<in> set (fams john)
        \<and> buildFamilyMap (families doe_tree) ''@F1@'' = Some doe_family
        \<and> ''@I3@'' \<in> set (children doe_family) \<and> ''@I3@'' \<noteq> canonicalizeId ''I1''
        \<and> (\<forall>fid' f'. fid' \<in> set (fams john)
              \<and> buildFamilyMap (families doe_tree) fid' = Some f'
              \<and> ''@I3@'' \<in> set (children f') \<longrightarrow> husband f' = Some (p_id john))"
    by (intro conjI doe_descendants_eval three pj mj f k nj all_j)
  have hw_all: "computeDescendants doe_tree ''I2'' 3 = Inr jane_descendants \<and> (0::rat) < 3
        \<and> buildPersonMap (persons doe_tree) (canonicalizeId ''I2'') = Some jane
        \<and> ''@F1@'' \<in> set (fams jane)
        \<and> buildFamilyMap (families doe_tree) ''@F1@'' = Some doe_family
        \<and> ''@I3@'' \<in> set (children doe_family) \<and> ''@I3@'' \<noteq> canonicalizeId ''I2''
        \<and> (\<forall>fid' f'. fid' \<in> set (fams jane)
              \<and> buildFamilyMap (families doe_tree) fid' = Some f'
              \<and> ''@I3@'' \<in> set (children f') \<longrightarrow> husband f' \<noteq> Some (p_id jane))"
    by (intro conjI jane_descendants_eval three pw mw f k nw all_w)
  have hs_all: "computeDescendants stranger_tree ''I7'' 3 = Inr stranger_descendants \<and> (0::rat) < 3
        \<and> buildPersonMap (persons stranger_tree) (canonicalizeId ''I7'') = Some stranger
        \<and> ''@F1@'' \<in> set (fams stranger)
        \<and> buildFamilyMap (families stranger_tree) ''@F1@'' = Some doe_family
        \<and> ''@I3@'' \<in> set (children doe_family) \<and> ''@I3@'' \<noteq> canonicalizeId ''I7''
        \<and> (\<forall>fid' f'. fid' \<in> set (fams stranger)
              \<and> buildFamilyMap (families stranger_tree) fid' = Some f'
              \<and> ''@I3@'' \<in> set (children f') \<longrightarrow> husband f' \<noteq> Some (p_id stranger))"
    by (intro conjI stranger_descendants_eval three ps ms fs k ns all_s)
  note by_some = T [where parseResult = doe_tree and rootId = "''I1''" and maxGenerations = 3
      and r = doe_descendants and rootPerson = john and rootFamilyId = "''@F1@''"
      and rootFamily = doe_family and c = "''@I3@''",
      THEN conjunct2, THEN conjunct2, THEN conjunct1, rule_format, OF hj]
  note wife = T [where parseResult = doe_tree and rootId = "''I2''" and maxGenerations = 3
      and r = jane_descendants and rootPerson = jane and rootFamilyId = "''@F1@''"
      and rootFamily = doe_family and c = "''@I3@''",
      THEN conjunct2, THEN conjunct2, THEN conjunct2, THEN conjunct1, rule_format, OF hw_all]
  note neither = T [where parseResult = stranger_tree and rootId = "''I7''"
      and maxGenerations = 3 and r = stranger_descendants and rootPerson = stranger
      and rootFamilyId = "''@F1@''" and rootFamily = doe_family and c = "''@I3@''",
      THEN conjunct2, THEN conjunct2, THEN conjunct2, THEN conjunct1, rule_format, OF hs_all]
  note man = T [where parseResult = doe_tree and rootId = "''I1''" and maxGenerations = 3
      and r = doe_descendants and rootPerson = john and rootFamilyId = "''@F1@''"
      and rootFamily = doe_family and c = "''@I3@''",
      THEN conjunct2, THEN conjunct2, THEN conjunct2, THEN conjunct2, rule_format, OF hj_all]
  show ?thesis
    by (intro conjI doe_descendants_eval m origin f step jane_descendants_eval wife
        stranger_descendants_eval neither man by_some)
qed

text \<open>
  C7, as amended.  With \<open>maxGenerations = N \<ge> 1\<close>, a traversal records at most
  \<open>\<lceil>N\<rceil>\<close> generations, so at most \<open>N\<close> when \<open>N\<close> is an integer; none of them is empty;
  when it records fewer than \<open>N\<close>, it stopped because the next generation was empty,
  and that empty generation is not recorded.  As stated (at most \<open>N\<close> for every \<open>N\<close>)
  the claim fails at \<open>N = 3/2\<close>, which the loop test \<open>gen < maxGenerations\<close> lets
  through twice.
\<close>

theorem generations_bounded_nonempty:
  assumes "1 \<le> maxGenerations"
  shows "(computeAncestors parseResult rootId maxGenerations = Inr r \<longrightarrow>
            int (length (generations r)) \<le> \<lceil>maxGenerations\<rceil>
            \<and> (maxGenerations \<in> \<int> \<longrightarrow> of_nat (length (generations r)) \<le> maxGenerations)
            \<and> (\<forall>g \<in> set (generations r). g \<noteq> [])
            \<and> (of_nat (length (generations r)) < maxGenerations \<longrightarrow>
                 currentGeneration (ancestors_walk parseResult rootId maxGenerations) = []))
       \<and> (computeDescendants parseResult rootId maxGenerations = Inr r \<longrightarrow>
            int (length (generations r)) \<le> \<lceil>maxGenerations\<rceil>
            \<and> (maxGenerations \<in> \<int> \<longrightarrow> of_nat (length (generations r)) \<le> maxGenerations)
            \<and> (\<forall>g \<in> set (generations r). g \<noteq> [])
            \<and> (of_nat (length (generations r)) < maxGenerations \<longrightarrow>
                 currentGeneration (descendants_walk parseResult rootId maxGenerations) = []))"
proof -
  have zero: "0 \<le> \<lceil>maxGenerations\<rceil>" using assms by (simp add: le_ceiling_iff)
  have bound: "of_nat k \<le> maxGenerations"
    if "int k \<le> \<lceil>maxGenerations\<rceil>" "maxGenerations \<in> \<int>" for k :: nat
  proof -
    have "(of_int (int k) :: rat) \<le> of_int \<lceil>maxGenerations\<rceil>" using that(1) by (simp only: of_int_le_iff)
    also have "of_int \<lceil>maxGenerations\<rceil> = maxGenerations" using that(2) by (auto simp: Ints_def)
    finally show ?thesis by simp
  qed
  have early: "int k < \<lceil>maxGenerations\<rceil>" if "of_nat k < maxGenerations" for k :: nat
    using that by (simp add: less_ceiling_iff)
  show ?thesis
  proof (intro conjI impI)
    assume a: "computeAncestors parseResult rootId maxGenerations = Inr r"
    let ?w = "ancestors_walk parseResult rootId maxGenerations"
    have g: "generations r = generations_acc ?w"
      using computeAncestors_Inr [OF a] by simp
    have c: "int (length (generations_acc ?w)) \<le> \<lceil>maxGenerations\<rceil>
       \<and> (int (length (generations_acc ?w)) < \<lceil>maxGenerations\<rceil> \<longrightarrow> currentGeneration ?w = [])"
      unfolding ancestors_walk_def
      by (rule ancestors_loop_count) (use zero in \<open>simp_all add: start_walk_def\<close>)
    show le: "int (length (generations r)) \<le> \<lceil>maxGenerations\<rceil>" using c g by simp
    show "of_nat (length (generations r)) \<le> maxGenerations" if "maxGenerations \<in> \<int>"
      using le that by (rule bound)
    show "\<forall>g \<in> set (generations r). g \<noteq> []"
      using ancestors_walk_outer [of parseResult rootId maxGenerations] g by (simp add: outer_ok_def)
    show "currentGeneration ?w = []" if "of_nat (length (generations r)) < maxGenerations"
      using c g early [OF that] by simp
  next
    assume a: "computeDescendants parseResult rootId maxGenerations = Inr r"
    let ?w = "descendants_walk parseResult rootId maxGenerations"
    have g: "generations r = generations_acc ?w"
      using computeDescendants_Inr [OF a] by simp
    have c: "int (length (generations_acc ?w)) \<le> \<lceil>maxGenerations\<rceil>
       \<and> (int (length (generations_acc ?w)) < \<lceil>maxGenerations\<rceil> \<longrightarrow> currentGeneration ?w = [])"
      unfolding descendants_walk_def
      by (rule descendants_loop_count) (use zero in \<open>simp_all add: start_walk_def\<close>)
    show le: "int (length (generations r)) \<le> \<lceil>maxGenerations\<rceil>" using c g by simp
    show "of_nat (length (generations r)) \<le> maxGenerations" if "maxGenerations \<in> \<int>"
      using le that by (rule bound)
    show "\<forall>g \<in> set (generations r). g \<noteq> []"
      using descendants_walk_outer [of parseResult rootId maxGenerations] g by (simp add: outer_ok_def)
    show "currentGeneration ?w = []" if "of_nat (length (generations r)) < maxGenerations"
      using c g early [OF that] by simp
  qed
qed

theorem generations_bounded_nonempty_witness:
  "(1::rat) \<le> 3
   \<and> computeAncestors doe_tree ''I3'' 3 = Inr doe_ancestors
   \<and> int (length (generations doe_ancestors)) \<le> \<lceil>3::rat\<rceil>
   \<and> (3::rat) \<in> \<int>
   \<and> of_nat (length (generations doe_ancestors)) \<le> (3::rat)
   \<and> of_nat (length (generations doe_ancestors)) < (3::rat)
   \<and> currentGeneration (ancestors_walk doe_tree ''I3'' 3) = []
   \<and> computeDescendants doe_tree ''I1'' 3 = Inr doe_descendants
   \<and> int (length (generations doe_descendants)) \<le> \<lceil>3::rat\<rceil>
   \<and> of_nat (length (generations doe_descendants)) \<le> (3::rat)
   \<and> of_nat (length (generations doe_descendants)) < (3::rat)
   \<and> currentGeneration (descendants_walk doe_tree ''I1'' 3) = []"
proof -
  have one: "(1::rat) \<le> 3" by simp
  have whole: "(3::rat) \<in> \<int>" by simp
  have a: "of_nat (length (generations doe_ancestors)) < (3::rat)"
    and d: "of_nat (length (generations doe_descendants)) < (3::rat)"
    by (simp_all add: doe_ancestors_def doe_descendants_def)
  note up = generations_bounded_nonempty [OF one, of doe_tree "''I3''" doe_ancestors,
      THEN conjunct1, rule_format, OF doe_ancestors_eval]
  note down = generations_bounded_nonempty [OF one, of doe_tree "''I1''" doe_descendants,
      THEN conjunct2, rule_format, OF doe_descendants_eval]
  have a1: "int (length (generations doe_ancestors)) \<le> \<lceil>3::rat\<rceil>"
    by (rule up [THEN conjunct1])
  have a2: "of_nat (length (generations doe_ancestors)) \<le> (3::rat)"
    by (rule up [THEN conjunct2, THEN conjunct1, rule_format, OF whole])
  have a3: "currentGeneration (ancestors_walk doe_tree ''I3'' 3) = []"
    by (rule up [THEN conjunct2, THEN conjunct2, THEN conjunct2, rule_format, OF a])
  have d1: "int (length (generations doe_descendants)) \<le> \<lceil>3::rat\<rceil>"
    by (rule down [THEN conjunct1])
  have d2: "of_nat (length (generations doe_descendants)) \<le> (3::rat)"
    by (rule down [THEN conjunct2, THEN conjunct1, rule_format, OF whole])
  have d3: "currentGeneration (descendants_walk doe_tree ''I1'' 3) = []"
    by (rule down [THEN conjunct2, THEN conjunct2, THEN conjunct2, rule_format, OF d])
  show ?thesis
    by (intro conjI one doe_ancestors_eval a1 whole a2 a a3 doe_descendants_eval d1 d2 d d3)
qed

theorem generations_exceed_fractional_bound:
  "(1::rat) \<le> 3 / 2
   \<and> canonicalizeId ''I3'' \<in> p_id ` set (persons doe_tree)
   \<and> computeAncestors doe_tree ''I3'' (3 / 2) = Inr doe_ancestors
   \<and> length (generations doe_ancestors) = 2
   \<and> (3 / 2 :: rat) < of_nat (length (generations doe_ancestors))"
proof -
  have "canonicalizeId ''I3'' \<in> p_id ` set (persons doe_tree)"
    by (simp add: canonicalizeId_def startsWith_def endsWith_def doe_tree_def kid_def)
  moreover have "length (generations doe_ancestors) = 2"
    by (simp add: doe_ancestors_def)
  ultimately show ?thesis using doe_ancestors_fractional_eval by simp
qed

text \<open>
  C8.  Canonicalization is idempotent.  A string that starts and ends with \<open>@\<close> is
  returned unchanged, any other non-empty string is wrapped in a pair of \<open>@\<close>, the
  empty string stays empty; \<open>I5\<close> and \<open>@I5@\<close> both give \<open>@I5@\<close>.  The parser's copy
  of the function computes the same.
\<close>

theorem canonicalizeId_idempotent:
  "canonicalizeId (canonicalizeId x) = canonicalizeId x
   \<and> (startsWith x ''@'' \<and> endsWith x ''@'' \<longrightarrow> canonicalizeId x = x)
   \<and> (x \<noteq> [] \<and> \<not> (startsWith x ''@'' \<and> endsWith x ''@'')
        \<longrightarrow> canonicalizeId x = ''@'' @ x @ ''@'')
   \<and> canonicalizeId [] = []
   \<and> canonicalizeId ''I5'' = ''@I5@'' \<and> canonicalizeId ''@I5@'' = ''@I5@''
   \<and> parser_canonicalizeId x = canonicalizeId x"
  by (auto simp: canonicalizeId_def parser_canonicalizeId_def startsWith_def endsWith_def)

theorem canonicalizeId_idempotent_witness:
  "startsWith ''@I5@'' ''@'' \<and> endsWith ''@I5@'' ''@'' \<and> canonicalizeId ''@I5@'' = ''@I5@''
   \<and> ''I5'' \<noteq> [] \<and> \<not> (startsWith ''I5'' ''@'' \<and> endsWith ''I5'' ''@'')
   \<and> canonicalizeId ''I5'' = ''@'' @ ''I5'' @ ''@''
   \<and> canonicalizeId (canonicalizeId ''I5'') = canonicalizeId ''I5''"
  using canonicalizeId_idempotent [of "''@I5@''"] canonicalizeId_idempotent [of "''I5''"]
  by (simp add: startsWith_def endsWith_def)

text \<open>
  C9, as amended.  For every byte sequence that is valid UTF-8 and does not itself begin
  with \<open>EF BB BF\<close>, the detector decodes the sequence with the mark in front as it
  decodes the sequence alone.  As stated (for every valid UTF-8 sequence) the claim
  fails on a sequence that begins with the mark: with a second mark in front, one mark
  is removed and the other is decoded as the character U+FEFF.
\<close>

theorem utf8_mark_transparent:
  assumes "utf8_valid b" "take 3 b \<noteq> utf8_mark"
  shows "detectAndDecodeGedcom dec (utf8_mark @ b) = detectAndDecodeGedcom dec b
     \<and> detectAndDecodeGedcom dec b = toString_utf8 dec b"
proof -
  have r: "detect_reference dec b = toString_utf8 dec b"
  proof (cases b)
    case Nil
    then show ?thesis by (simp add: detect_reference_def utf8_mark_def)
  next
    case (Cons x rest)
    with assms(1) have "x \<noteq> 0xFF \<and> x \<noteq> 0xFE" by (simp add: utf8_valid_first)
    with Cons assms(2) show ?thesis
      by (auto simp: detect_reference_def numeral_2_eq_2)
  qed
  show ?thesis using r by (simp add: detect_marked detect_is_reference [of dec b])
qed

theorem utf8_mark_transparent_witness:
  "utf8_valid plain_text \<and> take 3 plain_text \<noteq> utf8_mark
   \<and> detectAndDecodeGedcom node_decoders (utf8_mark @ plain_text)
       = detectAndDecodeGedcom node_decoders plain_text
   \<and> detectAndDecodeGedcom node_decoders plain_text = Inr plain_units"
proof -
  have v: "utf8_valid plain_text"
    by (simp add: utf8_eval plain_text_def)
  have t: "take 3 plain_text \<noteq> utf8_mark"
    by (simp add: plain_text_def utf8_mark_def numeral_3_eq_3)
  show ?thesis
    using utf8_mark_transparent [OF v t, of node_decoders] v t plain_text_decoded by simp
qed

theorem utf8_mark_not_transparent:
  "utf8_valid double_mark
   \<and> detectAndDecodeGedcom node_decoders (utf8_mark @ double_mark) = Inr [0xFEFF, 0x30]
   \<and> detectAndDecodeGedcom node_decoders double_mark = Inr [0x30]
   \<and> detectAndDecodeGedcom node_decoders (utf8_mark @ double_mark)
       \<noteq> detectAndDecodeGedcom node_decoders double_mark"
proof -
  have v: "utf8_valid double_mark"
    by (simp add: utf8_eval double_mark_def)
  have a: "detectAndDecodeGedcom node_decoders (utf8_mark @ double_mark) = Inr [0xFEFF, 0x30]"
    by (simp add: detect_marked node_decoders_def utf8_eval double_mark_def)
  have b: "detectAndDecodeGedcom node_decoders double_mark = Inr [0x30]"
    by (simp add: detectAndDecodeGedcom_def node_decoders_def utf8_eval double_mark_def)
  show ?thesis using v a b by simp
qed

text \<open>
  C10.  When the canonical root is the id of a person of the persons list, both
  traversals return a result, whatever \<open>maxGenerations\<close> is; the only failure is the
  root that is not found.  A family id without a family record changes nothing, and a
  walk over family ids is the walk over those that have a record; a generation member
  without a person record changes nothing, and a walk over a generation is the walk
  over its members that have a record.
\<close>

theorem traversal_total:
  "(canonicalizeId rootId \<in> p_id ` set (persons parseResult) \<longrightarrow>
      (\<exists>r. computeAncestors parseResult rootId maxGenerations = Inr r)
    \<and> (\<exists>r. computeDescendants parseResult rootId maxGenerations = Inr r))
   \<and> (computeAncestors parseResult rootId maxGenerations = Inl err \<longrightarrow>
        canonicalizeId rootId \<notin> p_id ` set (persons parseResult) \<and> err = root_not_found rootId)
   \<and> (computeDescendants parseResult rootId maxGenerations = Inl err \<longrightarrow>
        canonicalizeId rootId \<notin> p_id ` set (persons parseResult) \<and> err = root_not_found rootId)
   \<and> (familyMap familyId = None \<longrightarrow>
        ancestors_family familyMap personId w familyId = w
      \<and> descendants_family familyMap person personId w familyId = w)
   \<and> (personMap personId = None \<longrightarrow>
        ancestors_person personMap familyMap w personId = w
      \<and> descendants_person personMap familyMap w personId = w)
   \<and> foldl (ancestors_family familyMap personId) w familyIds
       = foldl (ancestors_family familyMap personId) w (filter (\<lambda>f. familyMap f \<noteq> None) familyIds)
   \<and> foldl (descendants_family familyMap person personId) w familyIds
       = foldl (descendants_family familyMap person personId) w (filter (\<lambda>f. familyMap f \<noteq> None) familyIds)
   \<and> foldl (ancestors_person personMap familyMap) w personIds
       = foldl (ancestors_person personMap familyMap) w (filter (\<lambda>i. personMap i \<noteq> None) personIds)
   \<and> foldl (descendants_person personMap familyMap) w personIds
       = foldl (descendants_person personMap familyMap) w (filter (\<lambda>i. personMap i \<noteq> None) personIds)"
proof -
  have dom: "(buildPersonMap (persons parseResult) (canonicalizeId rootId) = None)
      = (canonicalizeId rootId \<notin> p_id ` set (persons parseResult))"
    by (simp add: buildPersonMap_None)
  have a: "canonicalizeId rootId \<in> p_id ` set (persons parseResult) \<longrightarrow>
      (\<exists>r. computeAncestors parseResult rootId maxGenerations = Inr r)
    \<and> (\<exists>r. computeDescendants parseResult rootId maxGenerations = Inr r)"
    by (simp add: computeAncestors_def computeDescendants_def Let_def dom)
  have b: "computeAncestors parseResult rootId maxGenerations = Inl err \<longrightarrow>
        canonicalizeId rootId \<notin> p_id ` set (persons parseResult) \<and> err = root_not_found rootId"
    by (auto simp: computeAncestors_def Let_def dom split: if_splits)
  have c: "computeDescendants parseResult rootId maxGenerations = Inl err \<longrightarrow>
        canonicalizeId rootId \<notin> p_id ` set (persons parseResult) \<and> err = root_not_found rootId"
    by (auto simp: computeDescendants_def Let_def dom split: if_splits)
  have d: "familyMap familyId = None \<longrightarrow>
        ancestors_family familyMap personId w familyId = w
      \<and> descendants_family familyMap person personId w familyId = w"
    by (simp add: ancestors_family_def descendants_family_def)
  have e: "personMap personId = None \<longrightarrow>
        ancestors_person personMap familyMap w personId = w
      \<and> descendants_person personMap familyMap w personId = w"
    by (simp add: ancestors_person_def descendants_person_def)
  show ?thesis
    using a b c d e ancestors_family_skip [of familyMap personId w familyIds]
      descendants_family_skip [of familyMap person personId w familyIds]
      ancestors_person_skip [of personMap familyMap w personIds]
      descendants_person_skip [of personMap familyMap w personIds]
    by blast
qed

theorem traversal_total_witness:
  "canonicalizeId ''I3'' \<in> p_id ` set (persons doe_tree)
   \<and> (\<exists>r. computeAncestors doe_tree ''I3'' 3 = Inr r)
   \<and> (\<exists>r. computeDescendants doe_tree ''I3'' 3 = Inr r)
   \<and> computeAncestors doe_tree ''I9'' 3 = Inl (root_not_found ''I9'')
   \<and> canonicalizeId ''I9'' \<notin> p_id ` set (persons doe_tree)
   \<and> buildFamilyMap (families doe_tree) ''@F9@'' = None
   \<and> ancestors_family (buildFamilyMap (families doe_tree)) ''@I3@'' (start_walk ''@I3@'') ''@F9@''
       = start_walk ''@I3@''
   \<and> buildPersonMap (persons orphan_tree) ''@I1@'' = None
   \<and> ancestors_person (buildPersonMap (persons orphan_tree)) (buildFamilyMap (families orphan_tree))
         (start_walk ''@I3@'') ''@I1@''
       = start_walk ''@I3@''"
proof -
  have r3: "canonicalizeId ''I3'' \<in> p_id ` set (persons doe_tree)"
    by (simp add: canonicalizeId_def startsWith_def endsWith_def doe_tree_def kid_def)
  have a9: "computeAncestors doe_tree ''I9'' 3 = Inl (root_not_found ''I9'')"
    by code_simp
  have f9: "buildFamilyMap (families doe_tree) ''@F9@'' = None"
    by (simp add: buildFamilyMap_def doe_tree_def doe_family_def)
  have p1: "buildPersonMap (persons orphan_tree) ''@I1@'' = None"
    by (simp add: buildPersonMap_def orphan_tree_def kid_def)
  note found = traversal_total [where parseResult = doe_tree and rootId = "''I3''"
      and maxGenerations = 3, THEN conjunct1, rule_format, OF r3]
  note missing = traversal_total [where parseResult = doe_tree and rootId = "''I9''"
      and maxGenerations = 3 and err = "root_not_found ''I9''",
      THEN conjunct2, THEN conjunct1, rule_format, OF a9]
  note no_family = traversal_total [where familyMap = "buildFamilyMap (families doe_tree)"
      and familyId = "''@F9@''" and personId = "''@I3@''" and w = "start_walk ''@I3@''",
      THEN conjunct2, THEN conjunct2, THEN conjunct2, THEN conjunct1, rule_format, OF f9]
  note no_person = traversal_total [where personMap = "buildPersonMap (persons orphan_tree)"
      and familyMap = "buildFamilyMap (families orphan_tree)"
      and personId = "''@I1@''" and w = "start_walk ''@I3@''",
      THEN conjunct2, THEN conjunct2, THEN conjunct2, THEN conjunct2, THEN conjunct1,
      rule_format, OF p1]
  show ?thesis
    by (intro conjI r3 found [THEN conjunct1] found [THEN conjunct2] a9
        missing [THEN conjunct1] f9 no_family [THEN conjunct1] p1 no_person [THEN conjunct1])
qed

end
